theory Spec2Isabelle
  imports Complex_Main
begin

section \<open>The page \<open>src/pages/2_fit.py\<close>: simulated data, OLS fit, plot data\<close>

text \<open>
  The page draws a sample from a linear population model, fits ordinary least squares with
  statsmodels, and hands the fit to matplotlib. The model below follows the page's code line
  by line. Three things are outside the page and are treated as follows.

  \<^item> numpy's float64 values are modelled by \<open>npfloat\<close>: a finite value is an exact real
    (rounding, overflow and the sign of zero are not modelled), and the special values
    \<open>inf\<close>, \<open>-inf\<close> and \<open>nan\<close> are kept, because numpy's division and square root
    produce them instead of raising. Values that can only be finite are plain reals.
    A fit is therefore exact where float64 leaves a rounding residue; what is stated about
    a division by zero holds for any non-negative numerator, not only for the exact one.
  \<^item> The generators (numpy's global Mersenne Twister, scipy's Student-t quantile) are
    parameters, collected in the record \<open>lib\<close>; the global generator state is passed
    explicitly.
  \<^item> \<open>sm.OLS(y, X).fit()\<close> is modelled by its mathematical definition, the least-squares
    solution through the pseudo-inverse (statsmodels' default \<open>method="pinv"\<close>), for the
    two-column design matrices the page builds.
\<close>

subsection \<open>numpy floats\<close>

datatype npfloat = Fin real | PInf | NInf | NaN

fun nf_neg :: "npfloat \<Rightarrow> npfloat" where
  "nf_neg (Fin a) = Fin (- a)"
| "nf_neg PInf = NInf"
| "nf_neg NInf = PInf"
| "nf_neg NaN = NaN"

fun nf_add :: "npfloat \<Rightarrow> npfloat \<Rightarrow> npfloat" where
  "nf_add (Fin a) (Fin b) = Fin (a + b)"
| "nf_add NaN _ = NaN"
| "nf_add _ NaN = NaN"
| "nf_add PInf NInf = NaN"
| "nf_add NInf PInf = NaN"
| "nf_add PInf _ = PInf"
| "nf_add _ PInf = PInf"
| "nf_add NInf _ = NInf"
| "nf_add _ NInf = NInf"

definition nf_sub :: "npfloat \<Rightarrow> npfloat \<Rightarrow> npfloat" where
  "nf_sub a b = nf_add a (nf_neg b)"

text \<open>The sign of a product with an infinity; \<open>0 * inf\<close> is \<open>nan\<close>.\<close>

definition inf_of_sign :: "real \<Rightarrow> npfloat" where
  "inf_of_sign a = (if a = 0 then NaN else if 0 < a then PInf else NInf)"

fun nf_mul :: "npfloat \<Rightarrow> npfloat \<Rightarrow> npfloat" where
  "nf_mul (Fin a) (Fin b) = Fin (a * b)"
| "nf_mul NaN _ = NaN"
| "nf_mul _ NaN = NaN"
| "nf_mul (Fin a) PInf = inf_of_sign a"
| "nf_mul (Fin a) NInf = inf_of_sign (- a)"
| "nf_mul PInf (Fin b) = inf_of_sign b"
| "nf_mul NInf (Fin b) = inf_of_sign (- b)"
| "nf_mul PInf PInf = PInf"
| "nf_mul NInf NInf = PInf"
| "nf_mul PInf NInf = NInf"
| "nf_mul NInf PInf = NInf"

text \<open>
  Division never raises on arrays and numpy scalars: \<open>0/0\<close> is \<open>nan\<close>, \<open>a/0\<close> is an
  infinity with the sign of \<open>a\<close> (the zero divisors of the page are a non-negative sum of
  squares and an integer zero, so positive zero).
\<close>

fun nf_div :: "npfloat \<Rightarrow> npfloat \<Rightarrow> npfloat" where
  "nf_div (Fin a) (Fin b) = (if b = 0 then inf_of_sign a else Fin (a / b))"
| "nf_div NaN _ = NaN"
| "nf_div _ NaN = NaN"
| "nf_div (Fin a) PInf = Fin 0"
| "nf_div (Fin a) NInf = Fin 0"
| "nf_div PInf (Fin b) = (if 0 \<le> b then PInf else NInf)"
| "nf_div NInf (Fin b) = (if 0 \<le> b then NInf else PInf)"
| "nf_div PInf PInf = NaN"
| "nf_div PInf NInf = NaN"
| "nf_div NInf PInf = NaN"
| "nf_div NInf NInf = NaN"

fun nf_sqrt :: "npfloat \<Rightarrow> npfloat" where
  "nf_sqrt (Fin a) = (if a < 0 then NaN else Fin (sqrt a))"
| "nf_sqrt PInf = PInf"
| "nf_sqrt NInf = NaN"
| "nf_sqrt NaN = NaN"

definition nf_sq :: "npfloat \<Rightarrow> npfloat" where
  "nf_sq a = nf_mul a a"

definition nf_sum :: "npfloat list \<Rightarrow> npfloat" where
  "nf_sum vs = foldl nf_add (Fin 0) vs"

subsection \<open>Errors and the library parameters\<close>

text \<open>Every exception the libraries raise on the paths of the page is a \<open>ValueError\<close>.\<close>

datatype error = ValueError

text \<open>
  \<open>rk_seed\<close> initialises the generator state from a legal seed, \<open>rk_double\<close> draws one
  uniform value of \<open>[0, 1)\<close>, \<open>rk_gauss\<close> one standard normal value; \<open>t_ppf q df\<close> is
  \<open>scipy.stats.t.ppf(q, df)\<close>.
\<close>

record 'g lib =
  rk_seed :: "nat \<Rightarrow> 'g"
  rk_double :: "'g \<Rightarrow> real \<times> 'g"
  rk_gauss :: "'g \<Rightarrow> real \<times> 'g"
  t_ppf :: "real \<Rightarrow> real \<Rightarrow> npfloat"

fun draw_n :: "('g \<Rightarrow> real \<times> 'g) \<Rightarrow> nat \<Rightarrow> 'g \<Rightarrow> real list \<times> 'g" where
  "draw_n d 0 g = ([], g)"
| "draw_n d (Suc n) g =
     (case d g of (v, g1) \<Rightarrow> (case draw_n d n g1 of (vs, g2) \<Rightarrow> (v # vs, g2)))"

text \<open>\<open>np.random.seed(rseed)\<close>: a seed outside \<open>[0, 2**32 - 1]\<close> raises.\<close>

definition np_random_seed :: "'g lib \<Rightarrow> int \<Rightarrow> error + 'g" where
  "np_random_seed L rseed =
     (if 0 \<le> rseed \<and> rseed < 2 ^ 32 then Inr (rk_seed L (nat rseed)) else Inl ValueError)"

text \<open>
  \<open>np.random.uniform(low, high, (n, k))\<close>: an \<open>n \<times> k\<close> array, filled row by row with
  \<open>low + (high - low) * u\<close>; a negative dimension raises.
\<close>

fun chunks :: "nat \<Rightarrow> nat \<Rightarrow> 'a list \<Rightarrow> 'a list list" where
  "chunks 0 k vs = []"
| "chunks (Suc n) k vs = take k vs # chunks n k (drop k vs)"

definition np_random_uniform ::
  "'g lib \<Rightarrow> real \<Rightarrow> real \<Rightarrow> int \<times> int \<Rightarrow> 'g \<Rightarrow> error + (real list list \<times> 'g)" where
  "np_random_uniform L low high shape g =
     (case shape of (n, k) \<Rightarrow>
        if n < 0 \<or> k < 0 then Inl ValueError
        else (case draw_n (rk_double L) (nat n * nat k) g of
                (us, g1) \<Rightarrow>
                  Inr (chunks (nat n) (nat k) (map (\<lambda>u. low + (high - low) * u) us), g1)))"

text \<open>\<open>np.random.normal(loc, scale, n)\<close>: \<open>loc + scale * z\<close>; a negative scale raises.\<close>

definition np_random_normal ::
  "'g lib \<Rightarrow> real \<Rightarrow> real \<Rightarrow> int \<Rightarrow> 'g \<Rightarrow> error + (real list \<times> 'g)" where
  "np_random_normal L loc scl n g =
     (if scl < 0 \<or> n < 0 then Inl ValueError
      else (case draw_n (rk_gauss L) (nat n) g of
              (zs, g1) \<Rightarrow> Inr (map (\<lambda>z. loc + scl * z) zs, g1)))"

subsection \<open>Arrays\<close>

text \<open>A matrix is the list of its rows.\<close>

definition np_ones :: "int \<Rightarrow> real list" where
  "np_ones n = replicate (nat n) 1"

definition column_stack :: "real list \<Rightarrow> real list list \<Rightarrow> real list list" where
  "column_stack c M = map2 (#) c M"

definition col :: "nat \<Rightarrow> 'a list list \<Rightarrow> 'a list" where
  "col j M = map (\<lambda>r. r ! j) M"

definition dot :: "real list \<Rightarrow> real list \<Rightarrow> real" where
  "dot u v = sum_list (map2 (*) u v)"

definition np_dot :: "real list list \<Rightarrow> real list \<Rightarrow> real list" where
  "np_dot M v = map (\<lambda>r. dot r v) M"

text \<open>\<open>M.shape[0]\<close> and \<open>M.shape[1]\<close> of a matrix with at least one row.\<close>

definition shape0 :: "'a list list \<Rightarrow> int" where
  "shape0 M = int (length M)"

definition shape1 :: "'a list list \<Rightarrow> int" where
  "shape1 M = (case M of [] \<Rightarrow> 0 | r # _ \<Rightarrow> int (length r))"

text \<open>\<open>np.mean\<close>: the mean of an empty array is \<open>nan\<close>.\<close>

definition np_mean :: "real list \<Rightarrow> npfloat" where
  "np_mean v = nf_div (Fin (sum_list v)) (Fin (real (length v)))"

text \<open>\<open>np.sum((v - m) ** 2)\<close> for an array \<open>v\<close> and a scalar \<open>m\<close>.\<close>

definition sum_sq_dev :: "real list \<Rightarrow> npfloat \<Rightarrow> npfloat" where
  "sum_sq_dev v m = nf_sum (map (\<lambda>a. nf_sq (nf_sub (Fin a) m)) v)"

text \<open>\<open>np.sum(v ** 2)\<close>.\<close>

definition sum_sq :: "real list \<Rightarrow> real" where
  "sum_sq v = sum_list (map (\<lambda>a. a ^ 2) v)"

subsection \<open>statsmodels: \<open>sm.OLS(y, X).fit()\<close> and \<open>get_prediction\<close>\<close>

text \<open>
  A symmetric \<open>2 \<times> 2\<close> matrix \<open>[[a, b], [b, c]]\<close> is the triple \<open>(a, b, c)\<close>.
  \<open>gram X\<close> is \<open>X'X\<close> and \<open>xty X y\<close> is \<open>X'y\<close> of a two-column matrix.
\<close>

type_synonym sym2 = "real \<times> real \<times> real"

definition gram :: "real list list \<Rightarrow> sym2" where
  "gram X = (dot (col 0 X) (col 0 X), dot (col 0 X) (col 1 X), dot (col 1 X) (col 1 X))"

definition xty :: "real list list \<Rightarrow> real list \<Rightarrow> real \<times> real" where
  "xty X y = (dot (col 0 X) y, dot (col 1 X) y)"

definition det2 :: "sym2 \<Rightarrow> real" where
  "det2 G = (case G of (a, b, c) \<Rightarrow> a * c - b * b)"

text \<open>
  The Moore-Penrose inverse of a positive semi-definite symmetric \<open>2 \<times> 2\<close> matrix: the
  inverse when the determinant is not zero; for rank one, where the matrix is
  \<open>t * u u'\<close> with \<open>t\<close> its trace and \<open>u\<close> a unit vector, the matrix divided by \<open>t\<^sup>2\<close>;
  the zero matrix for rank zero.
\<close>

definition pinv2 :: "sym2 \<Rightarrow> sym2" where
  "pinv2 G = (case G of (a, b, c) \<Rightarrow>
     if det2 G \<noteq> 0 then (c / det2 G, - b / det2 G, a / det2 G)
     else if a + c \<noteq> 0 then (a / (a + c) ^ 2, b / (a + c) ^ 2, c / (a + c) ^ 2)
     else (0, 0, 0))"

definition rank2 :: "sym2 \<Rightarrow> nat" where
  "rank2 G = (case G of (a, b, c) \<Rightarrow>
     if det2 G \<noteq> 0 then 2 else if a + c \<noteq> 0 then 1 else 0)"

record ols_results =
  params :: "real list"
  normalized_cov_params :: sym2
  df_resid :: real
  ssr :: real
  centered_tss :: npfloat
  scale :: npfloat
  bse :: "npfloat list"
  rsquared :: npfloat

text \<open>
  The fit of \<open>y\<close> on a two-column design matrix whose first column is the constant:
  \<open>params = pinv(X) y = pinv(X'X) X'y\<close>, \<open>normalized_cov_params = pinv(X'X)\<close>,
  \<open>df_resid = nobs - rank(X)\<close>, \<open>scale = ssr / df_resid\<close>,
  \<open>bse = sqrt(diag(normalized_cov_params * scale))\<close> and, the model having a constant,
  \<open>rsquared = 1 - ssr / centered_tss\<close>. Building the model from empty arrays raises
  (the search for the constant column takes the maximum of an empty array).
\<close>

definition OLS_fit :: "real list \<Rightarrow> real list list \<Rightarrow> error + ols_results" where
  "OLS_fit y X =
     (if X = [] then Inl ValueError
      else
        (case pinv2 (gram X) of (n11, n12, n22) \<Rightarrow>
         case xty X y of (t1, t2) \<Rightarrow>
           let beta = [n11 * t1 + n12 * t2, n12 * t1 + n22 * t2];
               resid = map2 (-) y (np_dot X beta);
               dfr = real (length X) - real (rank2 (gram X));
               sse = sum_sq resid;
               tss = sum_sq_dev y (np_mean y);
               sc = nf_div (Fin sse) (Fin dfr)
           in Inr \<lparr> params = beta,
                    normalized_cov_params = (n11, n12, n22),
                    df_resid = dfr,
                    ssr = sse,
                    centered_tss = tss,
                    scale = sc,
                    bse = [nf_sqrt (nf_mul (Fin n11) sc), nf_sqrt (nf_mul (Fin n22) sc)],
                    rsquared = nf_sub (Fin 1) (nf_div (Fin sse) tss) \<rparr>))"

record prediction =
  predicted_mean :: "real list"
  se_mean :: "npfloat list"
  pred_df :: real

text \<open>
  \<open>var_pred_mean\<close> of a row \<open>r\<close> is \<open>r' C r\<close> with \<open>C = normalized_cov_params * scale\<close>,
  computed as \<open>(exog * dot(C, exog.T).T).sum(1)\<close>.
\<close>

definition var_pred_mean :: "ols_results \<Rightarrow> real list \<Rightarrow> npfloat" where
  "var_pred_mean m r =
     (case normalized_cov_params m of (n11, n12, n22) \<Rightarrow>
        let c11 = nf_mul (Fin n11) (scale m);
            c12 = nf_mul (Fin n12) (scale m);
            c22 = nf_mul (Fin n22) (scale m);
            a = Fin (r ! 0);
            b = Fin (r ! 1)
        in nf_add (nf_mul a (nf_add (nf_mul c11 a) (nf_mul c12 b)))
                  (nf_mul b (nf_add (nf_mul c12 a) (nf_mul c22 b))))"

definition get_prediction :: "ols_results \<Rightarrow> real list list \<Rightarrow> prediction" where
  "get_prediction m X =
     \<lparr> predicted_mean = np_dot X (params m),
       se_mean = map (\<lambda>r. nf_sqrt (var_pred_mean m r)) X,
       pred_df = df_resid m \<rparr>"

text \<open>\<open>predictions.conf_int(alpha)\<close>: the rows \<open>[mean - q * se, mean + q * se]\<close>.\<close>

definition conf_int :: "'g lib \<Rightarrow> prediction \<Rightarrow> real \<Rightarrow> npfloat list list" where
  "conf_int L p alpha =
     (let q = t_ppf L (1 - alpha / 2) (pred_df p)
      in map2 (\<lambda>m se. [nf_sub (Fin m) (nf_mul q se), nf_add (Fin m) (nf_mul q se)])
           (predicted_mean p) (se_mean p))"

subsection \<open>\<open>gen_lin_data\<close>\<close>

text \<open>
  The local variables of \<open>gen_lin_data\<close> at its \<open>return\<close>, and the dictionary it returns.
  \<open>r_squared\<close>, \<open>ss_tot\<close> and \<open>ss_res\<close> are computed and not returned.
\<close>

record locals =
  l_X :: "real list list"
  l_eps :: "real list"
  l_y :: "real list"
  l_model :: ols_results
  l_y_hat :: "real list"
  l_y_hat_se :: "npfloat list"
  l_ci :: "npfloat list list"
  l_deg_freedom :: int
  l_e :: "real list"
  l_s :: npfloat
  l_y_bar :: npfloat
  l_ss_tot :: npfloat
  l_ss_res :: real
  l_r_squared :: npfloat

record dataset =
  d_y :: "real list"
  d_x :: "real list list"
  d_s :: npfloat
  d_y_hat :: "real list"
  d_ci :: "npfloat list list"
  d_model :: ols_results

text \<open>
  The body of \<open>gen_lin_data\<close>, statement by statement. The result is paired with the state
  of numpy's global generator after the call; an exception leaves the state the generator
  had when it was raised.
\<close>

definition gen_lin_data_locals ::
  "'g lib \<Rightarrow> real \<Rightarrow> real \<Rightarrow> real \<Rightarrow> int \<Rightarrow> int \<Rightarrow> 'g \<Rightarrow> (error + locals) \<times> 'g" where
  "gen_lin_data_locals L b0 b1 sd N rseed g =
     (case np_random_seed L rseed of
        Inl err \<Rightarrow> (Inl err, g)
      | Inr g0 \<Rightarrow>
     let K = (2 :: int) in
     (case np_random_uniform L (- 10) 10 (N, K - 1) g0 of
        Inl err \<Rightarrow> (Inl err, g0)
      | Inr (X0, g1) \<Rightarrow>
     let X = column_stack (np_ones N) X0 in
     (case np_random_normal L 0 sd N g1 of
        Inl err \<Rightarrow> (Inl err, g1)
      | Inr (eps, g2) \<Rightarrow>
     let y = map2 (+) (np_dot X [b0, b1]) eps in
     (case OLS_fit y X of
        Inl err \<Rightarrow> (Inl err, g2)
      | Inr model \<Rightarrow>
     let predictions = get_prediction model X;
         y_hat = predicted_mean predictions;
         y_hat_se = se_mean predictions;
         ci = conf_int L predictions (5 / 100);
         deg_freedom = shape0 X - shape1 X;
         e = map2 (-) y y_hat;
         s = nf_sqrt (nf_div (Fin (sum_sq e)) (Fin (of_int deg_freedom)));
         y_bar = np_mean y;
         ss_tot = sum_sq_dev y y_bar;
         ss_res = sum_sq (map2 (-) y y_hat);
         r_squared = nf_sub (Fin 1) (nf_div (Fin ss_res) ss_tot)
     in (Inr \<lparr> l_X = X, l_eps = eps, l_y = y, l_model = model, l_y_hat = y_hat,
               l_y_hat_se = y_hat_se, l_ci = ci, l_deg_freedom = deg_freedom, l_e = e,
               l_s = s, l_y_bar = y_bar, l_ss_tot = ss_tot, l_ss_res = ss_res,
               l_r_squared = r_squared \<rparr>, g2)))))"

definition return_dict :: "locals \<Rightarrow> dataset" where
  "return_dict f =
     \<lparr> d_y = l_y f, d_x = l_X f, d_s = l_s f, d_y_hat = l_y_hat f, d_ci = l_ci f,
       d_model = l_model f \<rparr>"

definition gen_lin_data ::
  "'g lib \<Rightarrow> real \<Rightarrow> real \<Rightarrow> real \<Rightarrow> int \<Rightarrow> int \<Rightarrow> 'g \<Rightarrow> (error + dataset) \<times> 'g" where
  "gen_lin_data L b0 b1 sd N rseed g =
     (case gen_lin_data_locals L b0 b1 sd N rseed g of
        (Inl err, g1) \<Rightarrow> (Inl err, g1)
      | (Inr f, g1) \<Rightarrow> (Inr (return_dict f), g1))"

subsection \<open>\<open>plot_ols\<close>: the data handed to matplotlib\<close>

text \<open>
  \<open>np.argsort\<close> returns the indices that sort the array (the order among equal keys is
  that of a stable sort here); \<open>a[idx]\<close> with an index array picks the listed entries.
\<close>

definition np_argsort :: "real list \<Rightarrow> nat list" where
  "np_argsort v = sort_key (\<lambda>i. v ! i) [0..<length v]"

definition take_idx :: "'a list \<Rightarrow> nat list \<Rightarrow> 'a list" where
  "take_idx a idx = map (\<lambda>i. a ! i) idx"

text \<open>
  The arguments of \<open>ax.scatter\<close>, of \<open>ax.plot\<close> (the fitted line) and of
  \<open>ax.fill_between\<close> (the confidence band).
\<close>

record plot_data =
  scatter_args :: "real list \<times> real list"
  plot_args :: "real list \<times> real list"
  fill_between_args :: "real list \<times> npfloat list \<times> npfloat list"

definition plot_ols :: "dataset \<Rightarrow> plot_data" where
  "plot_ols data_custom =
     (let sorted_indices = np_argsort (col 1 (d_x data_custom));
          sorted_x = take_idx (col 1 (d_x data_custom)) sorted_indices;
          sorted_ci_lower = take_idx (col 0 (d_ci data_custom)) sorted_indices;
          sorted_ci_upper = take_idx (col 1 (d_ci data_custom)) sorted_indices
      in \<lparr> scatter_args = (col 1 (d_x data_custom), d_y data_custom),
           plot_args = (col 1 (d_x data_custom), d_y_hat data_custom),
           fill_between_args = (sorted_x, sorted_ci_lower, sorted_ci_upper) \<rparr>)"

subsection \<open>The resample button\<close>

text \<open>
  \<open>random.randint(a, b)\<close> returns an integer \<open>v\<close> with \<open>a \<le> v \<le> b\<close>, both ends
  included; which one is not determined by the page.
\<close>

inductive randint :: "int \<Rightarrow> int \<Rightarrow> int \<Rightarrow> bool" where
  randint_draw: "a \<le> v \<Longrightarrow> v \<le> b \<Longrightarrow> randint a b v"

text \<open>
  The body of \<open>if st.button("Resample data")\<close>: the new values of \<open>random_seed\<close> and
  \<open>custom_data\<close> (an exception of \<open>gen_lin_data\<close> in place of the data), and the generator
  state.
\<close>

inductive resample_click ::
  "'g lib \<Rightarrow> real \<Rightarrow> real \<Rightarrow> real \<Rightarrow> int \<Rightarrow> 'g \<Rightarrow> int \<times> (error + dataset) \<times> 'g \<Rightarrow> bool" where
  resample_draw:
    "randint 0 10000 random_seed \<Longrightarrow>
     gen_lin_data L b0_cust b1_cust var_cust n_cust random_seed g = (custom_data, g1) \<Longrightarrow>
     resample_click L b0_cust b1_cust var_cust n_cust g (random_seed, custom_data, g1)"

subsection \<open>Small library instances for evaluating the model\<close>

text \<open>
  The theorems below hold for every library. To evaluate the model on concrete inputs a
  library is needed; \<open>demo_lib\<close> alternates between two values and is not numpy's
  generator.
\<close>

definition demo_lib :: "nat lib" where
  "demo_lib =
     \<lparr> rk_seed = (\<lambda>s. s),
       rk_double = (\<lambda>g. (if even g then 3 / 4 else 1 / 4, Suc g)),
       rk_gauss = (\<lambda>g. (if even g then 1 else - 1 / 2, Suc g)),
       t_ppf = (\<lambda>q df. if 0 < df then Fin 2 else NaN) \<rparr>"

text \<open>
  \<open>stuck_lib\<close> is the pathological generator whose uniform draws all coincide, so that
  all regressor values of a sample are the same; its normal draws alternate as those of
  \<open>demo_lib\<close>.
\<close>

definition stuck_lib :: "nat lib" where
  "stuck_lib =
     \<lparr> rk_seed = (\<lambda>s. s),
       rk_double = (\<lambda>g. (3 / 4, Suc g)),
       rk_gauss = (\<lambda>g. (if even g then 1 else - 1 / 2, Suc g)),
       t_ppf = (\<lambda>q df. if 0 < df then Fin 2 else NaN) \<rparr>"

subsection \<open>Notions used in the statements\<close>

text \<open>
  The regressor values and the disturbances that a call draws: the first \<open>N\<close> uniform
  draws after seeding, scaled to \<open>[-10, 10)\<close>, and the next \<open>N\<close> normal draws, scaled
  by \<open>sd\<close>.
\<close>

definition x_draws :: "'g lib \<Rightarrow> int \<Rightarrow> int \<Rightarrow> real list" where
  "x_draws L N rseed =
     map (\<lambda>u. - 10 + (10 - (- 10)) * u)
       (fst (draw_n (rk_double L) (nat N) (rk_seed L (nat rseed))))"

definition eps_draws :: "'g lib \<Rightarrow> real \<Rightarrow> int \<Rightarrow> int \<Rightarrow> real list" where
  "eps_draws L sd N rseed =
     map (\<lambda>z. 0 + sd * z)
       (fst (draw_n (rk_gauss L) (nat N)
          (snd (draw_n (rk_double L) (nat N) (rk_seed L (nat rseed))))))"

text \<open>
  The calls on which no library raises: a legal seed, at least one row, a non-negative
  scale.
\<close>

definition valid_call :: "real \<Rightarrow> int \<Rightarrow> int \<Rightarrow> bool" where
  "valid_call sd N rseed \<longleftrightarrow> 0 \<le> rseed \<and> rseed < 2 ^ 32 \<and> 1 \<le> N \<and> 0 \<le> sd"

text \<open>The design matrix of regressor values \<open>xs\<close>: the rows \<open>[1, x]\<close>.\<close>

definition design :: "real list \<Rightarrow> real list list" where
  "design xs = map (\<lambda>v. [1, v]) xs"

section \<open>Properties of the model\<close>

subsection \<open>The draws and the design matrix\<close>

lemma length_draw_n: "length (fst (draw_n d n g)) = n"
proof (induction n arbitrary: g)
  case 0
  show ?case by simp
next
  case (Suc n)
  obtain v g1 where a: "d g = (v, g1)" by (cases "d g")
  obtain vs g2 where b: "draw_n d n g1 = (vs, g2)" by (cases "draw_n d n g1")
  from Suc [of g1] b have "length vs = n" by simp
  with a b show ?case by simp
qed

lemma chunks_one: "length vs = n \<Longrightarrow> chunks n 1 vs = map (\<lambda>v. [v]) vs"
proof (induction n arbitrary: vs)
  case 0
  then show ?case by simp
next
  case (Suc n)
  then obtain v ws where "vs = v # ws" by (cases vs) auto
  with Suc show ?case by simp
qed

lemma column_stack_ones:
  "length vs = nat N \<Longrightarrow> column_stack (np_ones N) (map (\<lambda>v. [v]) vs) = map (\<lambda>v. [1, v]) vs"
proof -
  assume len: "length vs = nat N"
  have "map2 (#) (replicate (length vs) (1::real)) (map (\<lambda>v. [v]) vs) = map (\<lambda>v. [1, v]) vs"
    by (induction vs) auto
  with len show ?thesis by (simp add: column_stack_def np_ones_def)
qed

lemma np_dot_design: "np_dot (map (\<lambda>v. [1, v]) xs) [b0, b1] = map (\<lambda>v. b0 + b1 * v) xs"
  by (simp add: np_dot_def dot_def o_def mult.commute)

lemma uniform_draws:
  "0 \<le> N \<Longrightarrow>
   np_random_uniform L lo hi (N, 1) g =
     Inr (map (\<lambda>v. [v]) (map (\<lambda>u. lo + (hi - lo) * u) (fst (draw_n (rk_double L) (nat N) g))),
          snd (draw_n (rk_double L) (nat N) g))"
proof -
  assume N: "0 \<le> N"
  obtain us g1 where d: "draw_n (rk_double L) (nat N) g = (us, g1)" by (cases "draw_n (rk_double L) (nat N) g")
  have "length us = nat N" using length_draw_n [of "rk_double L" "nat N" g] d by simp
  then have "chunks (nat N) 1 (map (\<lambda>u. lo + (hi - lo) * u) us) = map (\<lambda>v. [v]) (map (\<lambda>u. lo + (hi - lo) * u) us)"
    by (intro chunks_one) simp
  with N d show ?thesis by (simp add: np_random_uniform_def)
qed

lemma length_x_draws: "length (x_draws L N rseed) = nat N"
  by (simp add: x_draws_def length_draw_n)

lemma length_eps_draws: "length (eps_draws L sd N rseed) = nat N"
  by (simp add: eps_draws_def length_draw_n)

lemma OLS_fit_nonempty: "X \<noteq> [] \<Longrightarrow> \<exists>m. OLS_fit y X = Inr m"
  by (simp add: OLS_fit_def Let_def split: prod.splits)

lemma shape_design: "xs \<noteq> [] \<Longrightarrow> shape0 (design xs) - shape1 (design xs) = int (length xs) - 2"
  by (cases xs) (simp_all add: shape0_def shape1_def design_def)

lemma gen_locals_valid:
  fixes L :: "'g lib" and b0 b1 sd :: real and N rseed :: int and g :: 'g
  assumes v: "valid_call sd N rseed"
  defines "xs \<equiv> x_draws L N rseed" and "eps \<equiv> eps_draws L sd N rseed"
  defines "yv \<equiv> map2 (+) (map (\<lambda>v. b0 + b1 * v) xs) eps"
  shows "\<exists>f g1 m. gen_lin_data_locals L b0 b1 sd N rseed g = (Inr f, g1)
           \<and> OLS_fit yv (design xs) = Inr m
           \<and> f = \<lparr> l_X = design xs, l_eps = eps, l_y = yv, l_model = m,
                   l_y_hat = np_dot (design xs) (params m),
                   l_y_hat_se = se_mean (get_prediction m (design xs)),
                   l_ci = conf_int L (get_prediction m (design xs)) (5 / 100),
                   l_deg_freedom = N - 2,
                   l_e = map2 (-) yv (np_dot (design xs) (params m)),
                   l_s = nf_sqrt (nf_div (Fin (sum_sq (map2 (-) yv (np_dot (design xs) (params m)))))
                                   (Fin (of_int (N - 2)))),
                   l_y_bar = np_mean yv,
                   l_ss_tot = sum_sq_dev yv (np_mean yv),
                   l_ss_res = sum_sq (map2 (-) yv (np_dot (design xs) (params m))),
                   l_r_squared = nf_sub (Fin 1)
                      (nf_div (Fin (sum_sq (map2 (-) yv (np_dot (design xs) (params m)))))
                              (sum_sq_dev yv (np_mean yv))) \<rparr>"
proof -
  from v have r: "0 \<le> rseed" "rseed < 2 ^ 32" and N: "1 \<le> N" and sd: "0 \<le> sd"
    by (simp_all add: valid_call_def)
  define g0 where "g0 = rk_seed L (nat rseed)"
  define g1 where "g1 = snd (draw_n (rk_double L) (nat N) g0)"
  define g2 where "g2 = snd (draw_n (rk_gauss L) (nat N) g1)"
  have seed: "np_random_seed L rseed = Inr g0"
    using r by (simp add: np_random_seed_def g0_def)
  have uni: "np_random_uniform L (- 10) 10 (N, 1) g0 = Inr (map (\<lambda>v. [v]) xs, g1)"
    using N by (simp add: uniform_draws xs_def x_draws_def g0_def g1_def)
  have nor: "np_random_normal L 0 sd N g1 = Inr (eps, g2)"
    using N sd
    by (simp add: np_random_normal_def eps_def eps_draws_def g0_def g1_def g2_def
        split: prod.splits)
  have len: "length xs = nat N" by (simp add: xs_def length_x_draws)
  have X: "column_stack (np_ones N) (map (\<lambda>v. [v]) xs) = design xs"
    using len by (simp add: column_stack_ones design_def)
  have ne: "xs \<noteq> []" using len N by auto
  then have "design xs \<noteq> []" by (simp add: design_def)
  then obtain m where m: "OLS_fit yv (design xs) = Inr m"
    using OLS_fit_nonempty by blast
  have y: "map2 (+) (np_dot (design xs) [b0, b1]) eps = yv"
    by (simp add: yv_def design_def np_dot_design)
  have df: "shape0 (design xs) - shape1 (design xs) = N - 2"
    using shape_design [OF ne] len N by simp
  show ?thesis
    unfolding gen_lin_data_locals_def
    by (simp add: seed uni nor X y m df Let_def get_prediction_def)
qed

subsection \<open>Sums over the sample\<close>

lemma foldl_nf_add_Fin:
  "foldl nf_add (Fin c) (map (\<lambda>a. Fin (f a)) vs) = Fin (c + sum_list (map f vs))"
  by (induction vs arbitrary: c) (simp_all add: add.assoc)

lemma nf_sum_Fin: "nf_sum (map (\<lambda>a. Fin (f a)) vs) = Fin (sum_list (map f vs))"
  by (simp add: nf_sum_def foldl_nf_add_Fin)

lemma sum_sq_dev_Fin: "sum_sq_dev v (Fin m) = Fin (sum_list (map (\<lambda>a. (a - m) ^ 2) v))"
  by (simp add: sum_sq_dev_def nf_sq_def nf_sub_def nf_sum_Fin power2_eq_square)

lemma np_mean_Fin: "v \<noteq> [] \<Longrightarrow> np_mean v = Fin (sum_list v / real (length v))"
  by (simp add: np_mean_def)

lemma col0_design: "col 0 (design xs) = map (\<lambda>v. 1) xs"
  by (simp add: col_def design_def)

lemma col1_design: "col 1 (design xs) = xs"
  by (simp add: col_def design_def o_def)

lemma dot_ones_ones: "dot (map (\<lambda>v. 1) xs) (map (\<lambda>v. 1) xs) = real (length xs)"
  unfolding dot_def by (induction xs) simp_all

lemma dot_ones: "length ys = length xs \<Longrightarrow> dot (map (\<lambda>v. 1) xs) ys = sum_list ys"
  unfolding dot_def by (induction ys xs rule: list_induct2) simp_all

lemma gram_design:
  "gram (design xs) = (real (length xs), sum_list xs, dot xs xs)"
  by (simp add: gram_def col0_design col1_design dot_ones dot_ones_ones del: One_nat_def)

lemma xty_design:
  "length ys = length xs \<Longrightarrow> xty (design xs) ys = (sum_list ys, dot xs ys)"
  by (simp add: xty_def col0_design col1_design dot_ones del: One_nat_def)

lemma np_dot_design2: "np_dot (design xs) [b0, b1] = map (\<lambda>v. b0 + b1 * v) xs"
  by (simp add: design_def np_dot_design)

lemma quad_expand:
  "length ys = length xs \<Longrightarrow>
   sum_list (map2 (\<lambda>y x. (a + b * x + c * y) ^ 2) ys xs) =
     real (length xs) * a ^ 2 + b ^ 2 * dot xs xs + c ^ 2 * dot ys ys
     + 2 * a * b * sum_list xs + 2 * a * c * sum_list ys + 2 * b * c * dot xs ys"
  unfolding dot_def
  by (induction ys xs rule: list_induct2) (simp_all add: algebra_simps power2_eq_square)

lemma dev_expand:
  "sum_list (map (\<lambda>x. (x - m) ^ 2) xs) =
     dot xs xs - 2 * m * sum_list xs + real (length xs) * m ^ 2"
  unfolding dot_def
  by (induction xs) (simp_all add: algebra_simps power2_eq_square)

lemma det_zero_const:
  assumes ne: "xs \<noteq> []"
    and d: "real (length xs) * dot xs xs - sum_list xs * sum_list xs = 0"
  shows "\<forall>x\<in>set xs. x = sum_list xs / real (length xs)"
proof -
  define n where "n = real (length xs)"
  define m where "m = sum_list xs / n"
  have n: "n > 0" using ne by (simp add: n_def)
  have "n * (dot xs xs - 2 * m * sum_list xs + n * m ^ 2) = n * dot xs xs - sum_list xs * sum_list xs"
    using n by (simp add: m_def field_simps power2_eq_square)
  with d n have "dot xs xs - 2 * m * sum_list xs + n * m ^ 2 = 0"
    by (simp add: n_def)
  then have z: "sum_list (map (\<lambda>x. (x - m) ^ 2) xs) = 0"
    by (simp add: dev_expand n_def)
  have "\<forall>v\<in>set (map (\<lambda>x. (x - m) ^ 2) xs). v = 0"
    using z by (subst (asm) sum_list_nonneg_eq_0_iff) auto
  then show ?thesis by (auto simp: m_def n_def)
qed

lemma const_sums:
  assumes "\<forall>x\<in>set xs. x = m" and "length ys = length xs"
  shows "sum_list xs = real (length xs) * m" and "dot xs xs = real (length xs) * m * m"
    and "dot xs ys = m * sum_list ys"
proof -
  from assms(1) have xs: "xs = replicate (length xs) m"
    by (simp add: replicate_length_same)
  show "sum_list xs = real (length xs) * m"
    by (subst xs) (simp add: sum_list_replicate)
  show "dot xs xs = real (length xs) * m * m"
    using assms(1) unfolding dot_def by (induction xs) (simp_all add: algebra_simps)
  show "dot xs ys = m * sum_list ys"
    using assms(2,1) unfolding dot_def
    by (induction ys xs rule: list_induct2) (simp_all add: algebra_simps)
qed

lemma pinv2_normal_eqs:
  fixes n Sx Sxx Sy Sxy :: real
  assumes n: "0 < n"
    and sing: "n * Sxx - Sx * Sx = 0 \<Longrightarrow> \<exists>m. Sx = n * m \<and> Sxx = n * m * m \<and> Sxy = m * Sy"
    and p: "pinv2 (n, Sx, Sxx) = (n11, n12, n22)"
  shows "n * (n11 * Sy + n12 * Sxy) + Sx * (n12 * Sy + n22 * Sxy) = Sy"
    and "Sx * (n11 * Sy + n12 * Sxy) + Sxx * (n12 * Sy + n22 * Sxy) = Sxy"
proof -
  define d where "d = n * Sxx - Sx * Sx"
  have both: "n * (n11 * Sy + n12 * Sxy) + Sx * (n12 * Sy + n22 * Sxy) = Sy \<and>
    Sx * (n11 * Sy + n12 * Sxy) + Sxx * (n12 * Sy + n22 * Sxy) = Sxy"
  proof (cases "d = 0")
    case False
    with p have v: "n11 = Sxx / d" "n12 = - Sx / d" "n22 = n / d"
      by (simp_all add: pinv2_def det2_def d_def)
    have a: "n * (Sxx * Sy - Sx * Sxy) + Sx * (- Sx * Sy + n * Sxy) = Sy * d"
      by (simp add: d_def algebra_simps)
    have b: "Sx * (Sxx * Sy - Sx * Sxy) + Sxx * (- Sx * Sy + n * Sxy) = Sxy * d"
      by (simp add: d_def algebra_simps)
    have "n * (n11 * Sy + n12 * Sxy) + Sx * (n12 * Sy + n22 * Sxy)
        = (n * (Sxx * Sy - Sx * Sxy) + Sx * (- Sx * Sy + n * Sxy)) / d"
      unfolding v by (simp add: add_divide_distrib diff_divide_distrib algebra_simps)
    moreover have "Sx * (n11 * Sy + n12 * Sxy) + Sxx * (n12 * Sy + n22 * Sxy)
        = (Sx * (Sxx * Sy - Sx * Sxy) + Sxx * (- Sx * Sy + n * Sxy)) / d"
      unfolding v by (simp add: add_divide_distrib diff_divide_distrib algebra_simps)
    ultimately show ?thesis using False by (simp only: a b) simp
  next
    case True
    with sing obtain m where m: "Sx = n * m" "Sxx = n * m * m" "Sxy = m * Sy"
      by (auto simp: d_def)
    define t where "t = n * (1 + m * m)"
    have t: "t > 0" using n by (simp add: t_def add_pos_nonneg)
    have tr: "n + Sxx = t" by (simp add: m t_def algebra_simps)
    from p True have v: "n11 = n / t ^ 2" "n12 = Sx / t ^ 2" "n22 = Sxx / t ^ 2"
      using t by (simp_all add: pinv2_def det2_def d_def tr)
    have a: "n * (n * Sy + Sx * Sxy) + Sx * (Sx * Sy + Sxx * Sxy) = Sy * t ^ 2"
      by (simp add: m t_def algebra_simps power2_eq_square)
    have b: "Sx * (n * Sy + Sx * Sxy) + Sxx * (Sx * Sy + Sxx * Sxy) = Sxy * t ^ 2"
      by (simp add: m t_def algebra_simps power2_eq_square)
    have "n * (n11 * Sy + n12 * Sxy) + Sx * (n12 * Sy + n22 * Sxy)
        = (n * (n * Sy + Sx * Sxy) + Sx * (Sx * Sy + Sxx * Sxy)) / t ^ 2"
      unfolding v by (simp add: add_divide_distrib algebra_simps)
    moreover have "Sx * (n11 * Sy + n12 * Sxy) + Sxx * (n12 * Sy + n22 * Sxy)
        = (Sx * (n * Sy + Sx * Sxy) + Sxx * (Sx * Sy + Sxx * Sxy)) / t ^ 2"
      unfolding v by (simp add: add_divide_distrib algebra_simps)
    ultimately show ?thesis using t by (simp only: a b) simp
  qed
  from both show "n * (n11 * Sy + n12 * Sxy) + Sx * (n12 * Sy + n22 * Sxy) = Sy" by simp
  from both show "Sx * (n11 * Sy + n12 * Sxy) + Sxx * (n12 * Sy + n22 * Sxy) = Sxy" by simp
qed

subsection \<open>The least-squares fit\<close>

lemma lin_expand:
  "sum_list (map (\<lambda>x. (a + b * x) ^ 2) xs) =
     real (length xs) * a ^ 2 + 2 * a * b * sum_list xs + b ^ 2 * dot xs xs"
  unfolding dot_def
  by (induction xs) (simp_all add: algebra_simps power2_eq_square)

lemma sum_sq_resid:
  "length ys = length xs \<Longrightarrow>
   sum_sq (map2 (-) ys (map (\<lambda>v. b0 + b1 * v) xs)) =
     sum_list (map2 (\<lambda>y x. (- b0 + (- b1) * x + 1 * y) ^ 2) ys xs)"
  unfolding sum_sq_def
  by (induction ys xs rule: list_induct2) (simp_all add: algebra_simps)

text \<open>What \<open>OLS_fit\<close> returns on a design matrix: the normal equations hold.\<close>

lemma OLS_fit_design:
  assumes ne: "xs \<noteq> []" and len: "length ys = length xs"
    and fit: "OLS_fit ys (design xs) = Inr m"
  shows "\<exists>c0 c1. params m = [c0, c1]
           \<and> real (length xs) * c0 + sum_list xs * c1 = sum_list ys
           \<and> sum_list xs * c0 + dot xs xs * c1 = dot xs ys"
    and "ssr m = sum_sq (map2 (-) ys (np_dot (design xs) (params m)))"
    and "centered_tss m = sum_sq_dev ys (np_mean ys)"
    and "rsquared m = nf_sub (Fin 1) (nf_div (Fin (ssr m)) (centered_tss m))"
proof -
  obtain n11 n12 n22 where p: "pinv2 (real (length xs), sum_list xs, dot xs xs) = (n11, n12, n22)"
    by (cases "pinv2 (real (length xs), sum_list xs, dot xs xs)") auto
  have dne: "design xs \<noteq> []" using ne by (simp add: design_def)
  from fit have par: "params m = [n11 * sum_list ys + n12 * dot xs ys, n12 * sum_list ys + n22 * dot xs ys]"
    using dne len by (auto simp: OLS_fit_def gram_design xty_design p Let_def)
  have n: "0 < real (length xs)" using ne by simp
  have sing: "\<exists>mu. sum_list xs = real (length xs) * mu \<and> dot xs xs = real (length xs) * mu * mu
               \<and> dot xs ys = mu * sum_list ys"
    if "real (length xs) * dot xs xs - sum_list xs * sum_list xs = 0"
  proof -
    from det_zero_const [OF ne that] have c: "\<forall>x\<in>set xs. x = sum_list xs / real (length xs)" .
    from const_sums [OF c len] show ?thesis by blast
  qed
  from pinv2_normal_eqs [OF n sing p] par
  show "\<exists>c0 c1. params m = [c0, c1]
           \<and> real (length xs) * c0 + sum_list xs * c1 = sum_list ys
           \<and> sum_list xs * c0 + dot xs xs * c1 = dot xs ys"
    by blast
  from fit dne show "ssr m = sum_sq (map2 (-) ys (np_dot (design xs) (params m)))"
    by (auto simp: OLS_fit_def Let_def split: prod.splits)
  from fit dne show "centered_tss m = sum_sq_dev ys (np_mean ys)"
    by (auto simp: OLS_fit_def Let_def split: prod.splits)
  from fit dne show "rsquared m = nf_sub (Fin 1) (nf_div (Fin (ssr m)) (centered_tss m))"
    by (auto simp: OLS_fit_def Let_def split: prod.splits)
qed

text \<open>The normal equations give the decomposition of the total sum of squares.\<close>

lemma sst_decomposition:
  fixes xs ys :: "real list"
  assumes ne: "xs \<noteq> []" and len: "length ys = length xs"
    and ne1: "real (length xs) * c0 + sum_list xs * c1 = sum_list ys"
    and ne2: "sum_list xs * c0 + dot xs xs * c1 = dot xs ys"
  defines "mu \<equiv> sum_list ys / real (length ys)"
  shows "sum_list (map (\<lambda>y. (y - mu) ^ 2) ys) =
         sum_list (map (\<lambda>v. (v - mu) ^ 2) (map (\<lambda>v. c0 + c1 * v) xs))
         + sum_sq (map2 (-) ys (map (\<lambda>v. c0 + c1 * v) xs))"
proof -
  define n where "n = real (length xs)"
  define Sx where "Sx = sum_list xs"
  define Sy where "Sy = sum_list ys"
  define Sxx where "Sxx = dot xs xs"
  define Sxy where "Sxy = dot xs ys"
  define Syy where "Syy = dot ys ys"
  have n: "n > 0" using ne by (simp add: n_def)
  have mu: "n * mu = Sy" using n len by (simp add: mu_def n_def Sy_def)
  have sst: "sum_list (map (\<lambda>y. (y - mu) ^ 2) ys) = Syy - 2 * mu * Sy + n * mu ^ 2"
    by (simp add: dev_expand Syy_def Sy_def n_def len)
  have "sum_list (map (\<lambda>v. (v - mu) ^ 2) (map (\<lambda>v. c0 + c1 * v) xs))
      = sum_list (map (\<lambda>x. ((c0 - mu) + c1 * x) ^ 2) xs)"
    by (simp add: o_def algebra_simps)
  then have ssr: "sum_list (map (\<lambda>v. (v - mu) ^ 2) (map (\<lambda>v. c0 + c1 * v) xs))
      = n * (c0 - mu) ^ 2 + 2 * (c0 - mu) * c1 * Sx + c1 ^ 2 * Sxx"
    by (simp add: lin_expand n_def Sx_def Sxx_def)
  have sse: "sum_sq (map2 (-) ys (map (\<lambda>v. c0 + c1 * v) xs))
      = n * c0 ^ 2 + c1 ^ 2 * Sxx + Syy + 2 * c0 * c1 * Sx - 2 * c0 * Sy - 2 * c1 * Sxy"
    by (simp only: sum_sq_resid [OF len] quad_expand [OF len])
       (simp add: n_def Sx_def Sxx_def Syy_def Sy_def Sxy_def)
  have poly: "(Syy - 2 * mu * Sy + n * mu ^ 2)
      - (n * (c0 - mu) ^ 2 + 2 * (c0 - mu) * c1 * Sx + c1 ^ 2 * Sxx)
      - (n * c0 ^ 2 + c1 ^ 2 * Sxx + Syy + 2 * c0 * c1 * Sx - 2 * c0 * Sy - 2 * c1 * Sxy)
      = 2 * ((c0 - mu) * (Sy - (n * c0 + Sx * c1)) + c1 * (Sxy - (Sx * c0 + Sxx * c1)))"
    by (simp add: algebra_simps power2_eq_square)
  have "Sy - (n * c0 + Sx * c1) = 0" "Sxy - (Sx * c0 + Sxx * c1) = 0"
    using ne1 ne2 by (simp_all add: n_def Sx_def Sy_def Sxx_def Sxy_def)
  with poly have "(Syy - 2 * mu * Sy + n * mu ^ 2)
      = (n * (c0 - mu) ^ 2 + 2 * (c0 - mu) * c1 * Sx + c1 ^ 2 * Sxx)
      + (n * c0 ^ 2 + c1 ^ 2 * Sxx + Syy + 2 * c0 * c1 * Sx - 2 * c0 * Sy - 2 * c1 * Sxy)"
    by simp
  with sst ssr sse show ?thesis by simp
qed

text \<open>A vector in the kernel of \<open>X'X\<close> is in the kernel of \<open>X\<close>.\<close>

lemma normal_eqs_kernel:
  fixes xs :: "real list"
  assumes "real (length xs) * v0 + sum_list xs * v1 = 0"
    and "sum_list xs * v0 + dot xs xs * v1 = 0"
  shows "\<forall>x\<in>set xs. v0 + v1 * x = 0"
proof -
  have "sum_list (map (\<lambda>x. (v0 + v1 * x) ^ 2) xs)
      = v0 * (real (length xs) * v0 + sum_list xs * v1) + v1 * (sum_list xs * v0 + dot xs xs * v1)"
    by (simp only: lin_expand) (simp add: algebra_simps power2_eq_square)
  with assms have z: "sum_list (map (\<lambda>x. (v0 + v1 * x) ^ 2) xs) = 0" by simp
  have "\<forall>v\<in>set (map (\<lambda>x. (v0 + v1 * x) ^ 2) xs). v = 0"
    using z by (subst (asm) sum_list_nonneg_eq_0_iff) auto
  then show ?thesis by auto
qed

lemma shift_sums:
  "sum_list (map (\<lambda>y. y + k) ys) = sum_list ys + real (length ys) * k"
  "length ys = length xs \<Longrightarrow> dot xs (map (\<lambda>y. y + k) ys) = dot xs ys + k * sum_list xs"
proof -
  show "sum_list (map (\<lambda>y. y + k) ys) = sum_list ys + real (length ys) * k"
    by (induction ys) (simp_all add: algebra_simps)
  show "length ys = length xs \<Longrightarrow> dot xs (map (\<lambda>y. y + k) ys) = dot xs ys + k * sum_list xs"
    unfolding dot_def by (induction ys xs rule: list_induct2) (simp_all add: algebra_simps)
qed

lemma fitted_shift:
  assumes ne: "xs \<noteq> []" and len: "length ys = length xs"
    and fit: "OLS_fit ys (design xs) = Inr m"
    and fit': "OLS_fit (map (\<lambda>y. y + k) ys) (design xs) = Inr m'"
  shows "np_dot (design xs) (params m') = map (\<lambda>v. v + k) (np_dot (design xs) (params m))"
proof -
  from OLS_fit_design(1) [OF ne len fit] obtain c0 c1 where
    c: "params m = [c0, c1]" "real (length xs) * c0 + sum_list xs * c1 = sum_list ys"
       "sum_list xs * c0 + dot xs xs * c1 = dot xs ys" by blast
  have len': "length (map (\<lambda>y. y + k) ys) = length xs" using len by simp
  from OLS_fit_design(1) [OF ne len' fit'] obtain d0 d1 where
    d: "params m' = [d0, d1]"
       "real (length xs) * d0 + sum_list xs * d1 = sum_list (map (\<lambda>y. y + k) ys)"
       "sum_list xs * d0 + dot xs xs * d1 = dot xs (map (\<lambda>y. y + k) ys)" by blast
  have "real (length xs) * (d0 - c0 - k) + sum_list xs * (d1 - c1) = 0"
    using c(2) d(2) len by (simp add: shift_sums algebra_simps)
  moreover have "sum_list xs * (d0 - c0 - k) + dot xs xs * (d1 - c1) = 0"
    using c(3) d(3) len by (simp add: shift_sums algebra_simps)
  ultimately have "\<forall>x\<in>set xs. (d0 - c0 - k) + (d1 - c1) * x = 0"
    by (rule normal_eqs_kernel)
  then have "\<forall>x\<in>set xs. d0 + d1 * x = c0 + c1 * x + k"
    by (auto simp: algebra_simps)
  then show ?thesis
    by (simp add: c(1) d(1) np_dot_design2)
qed

subsection \<open>When a call fails\<close>

lemma gen_locals_invalid:
  assumes "\<not> valid_call sd N rseed"
  shows "fst (gen_lin_data_locals L b0 b1 sd N rseed g) = Inl ValueError"
proof (cases "0 \<le> rseed \<and> rseed < 2 ^ 32")
  case False
  then show ?thesis by (auto simp: gen_lin_data_locals_def np_random_seed_def)
next
  case seed: True
  show ?thesis
  proof (cases "N < 0")
    case True
    with seed show ?thesis
      by (simp add: gen_lin_data_locals_def np_random_seed_def np_random_uniform_def)
  next
    case N0: False
    show ?thesis
    proof (cases "sd < 0")
      case True
      with seed N0 show ?thesis
        by (simp add: gen_lin_data_locals_def np_random_seed_def uniform_draws
            np_random_normal_def)
    next
      case False
      with assms seed N0 have "N = 0" by (simp add: valid_call_def)
      with seed False show ?thesis
        by (simp add: gen_lin_data_locals_def np_random_seed_def np_random_uniform_def
            np_random_normal_def column_stack_def np_ones_def OLS_fit_def)
    qed
  qed
qed

lemma gen_locals_Inr_valid:
  "fst (gen_lin_data_locals L b0 b1 sd N rseed g) = Inr f \<Longrightarrow> valid_call sd N rseed"
  using gen_locals_invalid [of sd N rseed L b0 b1 g] by auto

lemma gen_lin_data_fst:
  "fst (gen_lin_data L b0 b1 sd N rseed g) =
     map_sum id return_dict (fst (gen_lin_data_locals L b0 b1 sd N rseed g))"
  by (simp add: gen_lin_data_def split: prod.splits sum.splits)

lemma gen_locals_indep:
  "fst (gen_lin_data_locals L b0 b1 sd N rseed g) = fst (gen_lin_data_locals L b0 b1 sd N rseed g')"
proof (cases "valid_call sd N rseed")
  case True
  from gen_locals_valid [OF True, of L b0 b1 g] gen_locals_valid [OF True, of L b0 b1 g']
  show ?thesis by (metis fst_conv Inr_inject)
next
  case False
  then show ?thesis by (simp add: gen_locals_invalid)
qed

section \<open>The claims\<close>

text \<open>
  C1. Two calls of \<open>gen_lin_data\<close> with the same parameters and the same seed return the
  same result (the same dataset: design matrix, response, fitted values, confidence
  intervals, residual standard error and fitted model, or the same exception), whatever
  state numpy's global generator is in before each call: the call reseeds it. Equality is
  equality of the modelled values.
\<close>

theorem gen_lin_data_deterministic:
  "fst (gen_lin_data L b0 b1 sd N rseed g) = fst (gen_lin_data L b0 b1 sd N rseed g')"
  by (simp add: gen_lin_data_fst gen_locals_indep [of L b0 b1 sd N rseed g g'])

subsection \<open>What a successful call returns\<close>

lemma sum_sq_nonneg: "0 \<le> sum_sq v"
  unfolding sum_sq_def by (rule sum_list_nonneg) auto

lemma length_np_dot: "length (np_dot M v) = length M"
  by (simp add: np_dot_def)

lemma length_design: "length (design xs) = length xs"
  by (simp add: design_def)

lemma length_conf_int:
  "length (conf_int L (get_prediction m X) alpha) = length X"
  by (simp add: conf_int_def get_prediction_def Let_def length_np_dot)

lemma rows_conf_int: "map length (conf_int L p alpha) = replicate (length (conf_int L p alpha)) 2"
  by (simp add: conf_int_def Let_def map_replicate_const o_def split_def)

lemma rows_design: "map length (design xs) = replicate (length xs) 2"
  by (simp add: design_def map_replicate_const o_def)

lemma col0_design_ones: "col 0 (design xs) = replicate (length xs) 1"
  by (simp add: col0_design map_replicate_const)

text \<open>The dataset a successful call returns.\<close>

lemma gen_lin_data_returns:
  fixes L :: "'g lib"
  assumes "valid_call sd N rseed"
  shows "fst (gen_lin_data L b0 b1 sd N rseed g)
           = Inr (projr (fst (gen_lin_data L b0 b1 sd N rseed g)))"
  using gen_locals_valid [OF assms, of L b0 b1 g] by (auto simp: gen_lin_data_fst)

lemma gen_locals_returns:
  fixes L :: "'g lib"
  assumes "valid_call sd N rseed"
  shows "fst (gen_lin_data_locals L b0 b1 sd N rseed g)
           = Inr (projr (fst (gen_lin_data_locals L b0 b1 sd N rseed g)))"
  using gen_locals_valid [OF assms, of L b0 b1 g] by auto

lemma gen_lin_data_InrD:
  fixes L :: "'g lib"
  assumes "fst (gen_lin_data L b0 b1 sd N rseed g) = Inr r"
  shows "\<exists>f. fst (gen_lin_data_locals L b0 b1 sd N rseed g) = Inr f \<and> r = return_dict f"
  using assms unfolding gen_lin_data_fst
  by (cases "fst (gen_lin_data_locals L b0 b1 sd N rseed g)") auto

lemma gen_locals_fields:
  fixes L :: "'g lib"
  assumes "fst (gen_lin_data_locals L b0 b1 sd N rseed g) = Inr f"
  defines "xs \<equiv> x_draws L N rseed"
  defines "yv \<equiv> map2 (+) (map (\<lambda>v. b0 + b1 * v) xs) (eps_draws L sd N rseed)"
  shows "valid_call sd N rseed"
    and "OLS_fit yv (design xs) = Inr (l_model f)"
    and "l_X f = design xs" and "l_y f = yv"
    and "l_y_hat f = np_dot (design xs) (params (l_model f))"
    and "l_ci f = conf_int L (get_prediction (l_model f) (design xs)) (5 / 100)"
    and "l_e f = map2 (-) yv (l_y_hat f)"
    and "l_s f = nf_sqrt (nf_div (Fin (sum_sq (l_e f))) (Fin (of_int (N - 2))))"
    and "l_y_bar f = np_mean yv"
    and "l_ss_tot f = sum_sq_dev yv (np_mean yv)"
    and "l_ss_res f = sum_sq (map2 (-) yv (l_y_hat f))"
    and "l_r_squared f = nf_sub (Fin 1) (nf_div (Fin (l_ss_res f)) (l_ss_tot f))"
    and "length xs = nat N" and "length yv = nat N" and "xs \<noteq> []"
proof -
  show v: "valid_call sd N rseed" using assms(1) by (rule gen_locals_Inr_valid)
  from gen_locals_valid [OF v, of L b0 b1 g] assms(1)
  obtain m where m: "OLS_fit yv (design xs) = Inr m"
    and f: "f = \<lparr> l_X = design xs, l_eps = eps_draws L sd N rseed, l_y = yv, l_model = m,
                   l_y_hat = np_dot (design xs) (params m),
                   l_y_hat_se = se_mean (get_prediction m (design xs)),
                   l_ci = conf_int L (get_prediction m (design xs)) (5 / 100),
                   l_deg_freedom = N - 2,
                   l_e = map2 (-) yv (np_dot (design xs) (params m)),
                   l_s = nf_sqrt (nf_div (Fin (sum_sq (map2 (-) yv (np_dot (design xs) (params m)))))
                                   (Fin (of_int (N - 2)))),
                   l_y_bar = np_mean yv,
                   l_ss_tot = sum_sq_dev yv (np_mean yv),
                   l_ss_res = sum_sq (map2 (-) yv (np_dot (design xs) (params m))),
                   l_r_squared = nf_sub (Fin 1)
                      (nf_div (Fin (sum_sq (map2 (-) yv (np_dot (design xs) (params m)))))
                              (sum_sq_dev yv (np_mean yv))) \<rparr>"
    unfolding xs_def yv_def by auto
  from m f show "OLS_fit yv (design xs) = Inr (l_model f)" by simp
  from f show "l_X f = design xs" "l_y f = yv"
    "l_y_hat f = np_dot (design xs) (params (l_model f))"
    "l_ci f = conf_int L (get_prediction (l_model f) (design xs)) (5 / 100)"
    "l_e f = map2 (-) yv (l_y_hat f)"
    "l_s f = nf_sqrt (nf_div (Fin (sum_sq (l_e f))) (Fin (of_int (N - 2))))"
    "l_y_bar f = np_mean yv"
    "l_ss_tot f = sum_sq_dev yv (np_mean yv)"
    "l_ss_res f = sum_sq (map2 (-) yv (l_y_hat f))"
    "l_r_squared f = nf_sub (Fin 1) (nf_div (Fin (l_ss_res f)) (l_ss_tot f))"
    by simp_all
  show len: "length xs = nat N" by (simp add: xs_def length_x_draws)
  show "length yv = nat N" by (simp add: yv_def len length_eps_draws)
  from v len show "xs \<noteq> []" by (auto simp: valid_call_def)
qed

text \<open>
  C6. For every call with sample size \<open>n \<ge> 3\<close> that returns a dataset, the residual
  standard error \<open>s\<close> of the dataset satisfies \<open>s\<^sup>2 * (n - 2) = \<Sum> e\<^sub>i\<^sup>2\<close>, where
  \<open>e\<^sub>i = y\<^sub>i - y_hat\<^sub>i\<close> are the residuals (in exact arithmetic; in particular \<open>s\<close> is
  finite).
\<close>

theorem residual_std_error_dof:
  fixes L :: "'g lib"
  assumes N: "3 \<le> N"
    and r: "fst (gen_lin_data L b0 b1 sd N rseed g) = Inr r"
  shows "nf_mul (nf_sq (d_s r)) (Fin (of_int (N - 2)))
           = Fin (sum_sq (map2 (-) (d_y r) (d_y_hat r)))"
proof -
  from gen_lin_data_InrD [OF r] obtain f where
    f: "fst (gen_lin_data_locals L b0 b1 sd N rseed g) = Inr f" and rf: "r = return_dict f"
    by blast
  define S where "S = sum_sq (map2 (-) (l_y f) (l_y_hat f))"
  define k where "k = (of_int (N - 2) :: real)"
  have k: "0 < k" using N by (simp add: k_def)
  have S: "0 \<le> S" by (simp add: S_def sum_sq_nonneg)
  have e: "l_e f = map2 (-) (l_y f) (l_y_hat f)"
    using gen_locals_fields(4,7) [OF f] by simp
  have "l_s f = nf_sqrt (nf_div (Fin S) (Fin k))"
    using gen_locals_fields(8) [OF f] by (simp add: e S_def k_def)
  also have "\<dots> = Fin (sqrt (S / k))"
  proof -
    have "0 \<le> S / k" using k S by simp
    then have "\<not> S / k < 0" by simp
    with k show ?thesis by simp
  qed
  finally have s: "l_s f = Fin (sqrt (S / k))" .
  have "sqrt (S / k) * sqrt (S / k) * k = S" using k S by simp
  then have "nf_mul (nf_sq (l_s f)) (Fin k) = Fin S"
    by (simp add: s nf_sq_def)
  then show ?thesis by (simp add: rf return_dict_def S_def k_def)
qed

theorem residual_std_error_dof_witness:
  "(3::int) \<le> 3
   \<and> fst (gen_lin_data demo_lib 0 1 1 3 0 0) = Inr (projr (fst (gen_lin_data demo_lib 0 1 1 3 0 0)))
   \<and> nf_mul (nf_sq (d_s (projr (fst (gen_lin_data demo_lib 0 1 1 3 0 0))))) (Fin (of_int (3 - 2)))
       = Fin (sum_sq (map2 (-) (d_y (projr (fst (gen_lin_data demo_lib 0 1 1 3 0 0))))
                               (d_y_hat (projr (fst (gen_lin_data demo_lib 0 1 1 3 0 0))))))"
proof -
  have v: "valid_call 1 3 0" by (simp add: valid_call_def)
  note ret = gen_lin_data_returns [OF v, of demo_lib 0 1 0]
  from residual_std_error_dof [OF _ ret] ret show ?thesis by simp
qed

text \<open>
  C10. For every sample size \<open>N \<ge> 1\<close>, the dataset a call returns is shape-consistent:
  \<open>y\<close> and \<open>y_hat\<close> have \<open>N\<close> entries, \<open>ci\<close> has \<open>N\<close> rows of two entries (lower,
  upper), the design matrix has \<open>N\<close> rows of two entries, and its first column is all
  ones.
\<close>

theorem dataset_shapes:
  fixes L :: "'g lib"
  assumes N: "1 \<le> N"
    and r: "fst (gen_lin_data L b0 b1 sd N rseed g) = Inr r"
  shows "length (d_y r) = nat N \<and> length (d_y_hat r) = nat N
       \<and> length (d_ci r) = nat N \<and> map length (d_ci r) = replicate (nat N) 2
       \<and> length (d_x r) = nat N \<and> map length (d_x r) = replicate (nat N) 2
       \<and> col 0 (d_x r) = replicate (nat N) 1"
proof -
  from gen_lin_data_InrD [OF r] obtain f where
    f: "fst (gen_lin_data_locals L b0 b1 sd N rseed g) = Inr f" and rf: "r = return_dict f"
    by blast
  note F = gen_locals_fields [OF f]
  have "length (d_y r) = nat N" using F(4,14) by (simp add: rf return_dict_def)
  moreover have "length (d_y_hat r) = nat N"
    using F(5,13) by (simp add: rf return_dict_def length_np_dot length_design)
  moreover have ci: "length (d_ci r) = nat N"
    using F(6,13) by (simp add: rf return_dict_def length_conf_int length_design)
  moreover have "map length (d_ci r) = replicate (nat N) 2"
    using F(6) ci rows_conf_int [of L "get_prediction (l_model f) (design (x_draws L N rseed))" "5/100"]
    by (simp add: rf return_dict_def)
  moreover have "length (d_x r) = nat N"
    using F(3,13) by (simp add: rf return_dict_def length_design)
  moreover have "map length (d_x r) = replicate (nat N) 2"
    using F(3,13) by (simp add: rf return_dict_def rows_design)
  moreover have "col 0 (d_x r) = replicate (nat N) 1"
    using F(3,13) by (simp add: rf return_dict_def col0_design_ones)
  ultimately show ?thesis by blast
qed

theorem dataset_shapes_witness:
  "(1::int) \<le> 3
   \<and> fst (gen_lin_data demo_lib 0 1 1 3 0 0) = Inr (projr (fst (gen_lin_data demo_lib 0 1 1 3 0 0)))
   \<and> length (d_y (projr (fst (gen_lin_data demo_lib 0 1 1 3 0 0)))) = nat 3
   \<and> length (d_y_hat (projr (fst (gen_lin_data demo_lib 0 1 1 3 0 0)))) = nat 3
   \<and> length (d_ci (projr (fst (gen_lin_data demo_lib 0 1 1 3 0 0)))) = nat 3
   \<and> map length (d_ci (projr (fst (gen_lin_data demo_lib 0 1 1 3 0 0)))) = replicate (nat 3) 2
   \<and> length (d_x (projr (fst (gen_lin_data demo_lib 0 1 1 3 0 0)))) = nat 3
   \<and> map length (d_x (projr (fst (gen_lin_data demo_lib 0 1 1 3 0 0)))) = replicate (nat 3) 2
   \<and> col 0 (d_x (projr (fst (gen_lin_data demo_lib 0 1 1 3 0 0)))) = replicate (nat 3) 1"
proof -
  have v: "valid_call 1 3 0" by (simp add: valid_call_def)
  note ret = gen_lin_data_returns [OF v, of demo_lib 0 1 0]
  have "(1::int) \<le> 3" by simp
  from dataset_shapes [OF this ret] ret show ?thesis by simp
qed

subsection \<open>The sums of squares of a call\<close>

lemma sum_sq_dev_nonneg: "0 \<le> sum_list (map (\<lambda>a. (a - m) ^ 2) (v :: real list))"
  by (rule sum_list_nonneg) auto

lemma locals_sums:
  fixes L :: "'g lib"
  assumes f: "fst (gen_lin_data_locals L b0 b1 sd N rseed g) = Inr f"
  shows "\<exists>mu tss ssreg. l_y_bar f = Fin mu \<and> l_ss_tot f = Fin tss
           \<and> sum_sq_dev (l_y_hat f) (l_y_bar f) = Fin ssreg
           \<and> tss = ssreg + l_ss_res f \<and> 0 \<le> ssreg \<and> 0 \<le> l_ss_res f
           \<and> l_ss_res f = sum_sq (l_e f)
           \<and> ssr (l_model f) = l_ss_res f \<and> centered_tss (l_model f) = l_ss_tot f
           \<and> rsquared (l_model f) = l_r_squared f"
proof -
  define xs where "xs = x_draws L N rseed"
  define ys where "ys = map2 (+) (map (\<lambda>v. b0 + b1 * v) xs) (eps_draws L sd N rseed)"
  note F = gen_locals_fields [OF f, folded xs_def, folded ys_def]
  have len: "length ys = length xs" using F(13,14) by simp
  have ne: "xs \<noteq> []" by (rule F(15))
  then have yne: "ys \<noteq> []" using len by auto
  define mu where "mu = sum_list ys / real (length ys)"
  have mean: "np_mean ys = Fin mu" using yne by (simp add: np_mean_Fin mu_def)
  from OLS_fit_design(1) [OF ne len F(2)] obtain c0 c1 where
    c: "params (l_model f) = [c0, c1]"
       "real (length xs) * c0 + sum_list xs * c1 = sum_list ys"
       "sum_list xs * c0 + dot xs xs * c1 = dot xs ys" by blast
  have yhat: "l_y_hat f = map (\<lambda>v. c0 + c1 * v) xs"
    using F(5) by (simp add: c(1) np_dot_design2)
  have dec: "sum_list (map (\<lambda>y. (y - mu) ^ 2) ys) =
         sum_list (map (\<lambda>v. (v - mu) ^ 2) (map (\<lambda>v. c0 + c1 * v) xs))
         + sum_sq (map2 (-) ys (map (\<lambda>v. c0 + c1 * v) xs))"
    unfolding mu_def by (rule sst_decomposition [OF ne len c(2,3)])
  have "l_y_bar f = Fin mu" using F(9) mean by simp
  moreover have "l_ss_tot f = Fin (sum_list (map (\<lambda>y. (y - mu) ^ 2) ys))"
    using F(10) by (simp add: mean sum_sq_dev_Fin)
  moreover have "sum_sq_dev (l_y_hat f) (l_y_bar f)
      = Fin (sum_list (map (\<lambda>v. (v - mu) ^ 2) (map (\<lambda>v. c0 + c1 * v) xs)))"
    using F(9) by (simp only: mean yhat sum_sq_dev_Fin)
  moreover have res: "l_ss_res f = sum_sq (map2 (-) ys (map (\<lambda>v. c0 + c1 * v) xs))"
    using F(11) by (simp add: yhat)
  moreover have "0 \<le> sum_list (map (\<lambda>v. (v - mu) ^ 2) (map (\<lambda>v. c0 + c1 * v) xs))"
    by (rule sum_sq_dev_nonneg)
  moreover have "0 \<le> l_ss_res f" by (simp add: res sum_sq_nonneg)
  moreover have "l_ss_res f = sum_sq (l_e f)" using F(7,11) by simp
  moreover have s: "ssr (l_model f) = l_ss_res f"
    using OLS_fit_design(2) [OF ne len F(2)] F(5,11) by simp
  moreover have t: "centered_tss (l_model f) = l_ss_tot f"
    using OLS_fit_design(3) [OF ne len F(2)] F(10) by simp
  moreover have "rsquared (l_model f) = l_r_squared f"
    using OLS_fit_design(4) [OF ne len F(2)] F(12) s t by simp
  ultimately show ?thesis using dec by (simp only:) blast
qed

text \<open>
  C7. For every dataset the routine generates, with its OLS fit, the total sum of squares
  is the sum of the regression and the residual sums of squares:
  \<open>\<Sum>(y\<^sub>i - y_bar)\<^sup>2 = \<Sum>(y_hat\<^sub>i - y_bar)\<^sup>2 + \<Sum>e\<^sub>i\<^sup>2\<close>, with \<open>y_bar\<close> the mean of the
  response, \<open>ss_tot\<close> the first sum and \<open>ss_res = \<Sum>e\<^sub>i\<^sup>2\<close> as the routine computes them
  (in exact arithmetic; all three sums are finite).
\<close>

theorem sst_ssr_sse:
  fixes L :: "'g lib"
  assumes f: "fst (gen_lin_data_locals L b0 b1 sd N rseed g) = Inr f"
  shows "(\<exists>t. l_ss_tot f = Fin t)
       \<and> l_ss_tot f = nf_add (sum_sq_dev (l_y_hat f) (l_y_bar f)) (Fin (l_ss_res f))
       \<and> l_ss_res f = sum_sq (l_e f)"
proof -
  from locals_sums [OF f] obtain mu tss ssreg where
    "l_ss_tot f = Fin tss" "sum_sq_dev (l_y_hat f) (l_y_bar f) = Fin ssreg"
    "tss = ssreg + l_ss_res f" "l_ss_res f = sum_sq (l_e f)" by blast
  then show ?thesis by simp
qed

theorem sst_ssr_sse_witness:
  "fst (gen_lin_data_locals demo_lib 0 1 1 3 0 0)
      = Inr (projr (fst (gen_lin_data_locals demo_lib 0 1 1 3 0 0)))
   \<and> (\<exists>t. l_ss_tot (projr (fst (gen_lin_data_locals demo_lib 0 1 1 3 0 0))) = Fin t)
   \<and> l_ss_tot (projr (fst (gen_lin_data_locals demo_lib 0 1 1 3 0 0)))
       = nf_add (sum_sq_dev (l_y_hat (projr (fst (gen_lin_data_locals demo_lib 0 1 1 3 0 0))))
                            (l_y_bar (projr (fst (gen_lin_data_locals demo_lib 0 1 1 3 0 0)))))
                (Fin (l_ss_res (projr (fst (gen_lin_data_locals demo_lib 0 1 1 3 0 0)))))
   \<and> l_ss_res (projr (fst (gen_lin_data_locals demo_lib 0 1 1 3 0 0)))
       = sum_sq (l_e (projr (fst (gen_lin_data_locals demo_lib 0 1 1 3 0 0))))"
proof -
  have v: "valid_call 1 3 0" by (simp add: valid_call_def)
  note ret = gen_locals_returns [OF v, of demo_lib 0 1 0]
  from ret sst_ssr_sse [OF ret] show ?thesis by (rule conjI)
qed

subsection \<open>No variation in the response\<close>

text \<open>
  The division by a zero total sum of squares: \<open>0 / 0\<close> is \<open>nan\<close>, and a positive
  residual sum of squares divided by zero is \<open>inf\<close>, so that \<open>1 - ss_res / 0\<close> is
  \<open>nan\<close> or \<open>-inf\<close>. Only \<open>ss_res \<ge> 0\<close> is used, not that the fit is exact.
\<close>

lemma one_minus_div_zero:
  "0 \<le> res \<Longrightarrow> nf_sub (Fin 1) (nf_div (Fin res) (Fin 0)) = (if res = 0 then NaN else NInf)"
  by (simp add: inf_of_sign_def nf_sub_def)

lemma zero_variation_not_finite:
  fixes L :: "'g lib"
  assumes f: "fst (gen_lin_data_locals L b0 b1 sd N rseed g) = Inr f"
    and z: "l_ss_tot f = Fin 0"
  shows "l_r_squared f = (if l_ss_res f = 0 then NaN else NInf)"
    and "rsquared (l_model f) = (if ssr (l_model f) = 0 then NaN else NInf)"
proof -
  have nn: "0 \<le> l_ss_res f"
    using gen_locals_fields(11) [OF f] by (simp add: sum_sq_nonneg)
  have "l_r_squared f = nf_sub (Fin 1) (nf_div (Fin (l_ss_res f)) (l_ss_tot f))"
    by (rule gen_locals_fields(12) [OF f])
  then show a: "l_r_squared f = (if l_ss_res f = 0 then NaN else NInf)"
    using one_minus_div_zero [OF nn] by (simp only: z)
  from locals_sums [OF f] have "ssr (l_model f) = l_ss_res f"
    and "rsquared (l_model f) = l_r_squared f" by blast+
  with a show "rsquared (l_model f) = (if ssr (l_model f) = 0 then NaN else NInf)" by simp
qed

lemma flat_response:
  "length zs = length xs \<Longrightarrow>
   map2 (+) (map (\<lambda>v. b0 + 0 * v) xs) (map (\<lambda>z. 0 + 0 * z) zs) = replicate (length xs) (b0 :: real)"
  by (induction zs xs rule: list_induct2) simp_all

lemma flat_ss_tot:
  fixes L :: "'g lib"
  assumes f: "fst (gen_lin_data_locals L b0 0 0 N rseed g) = Inr f"
  shows "l_ss_tot f = Fin 0"
proof -
  note F = gen_locals_fields [OF f]
  define n where "n = nat N"
  have n: "n \<noteq> 0" using F(13,15) by (auto simp: n_def)
  have "length (fst (draw_n (rk_gauss L) (nat N)
          (snd (draw_n (rk_double L) (nat N) (rk_seed L (nat rseed)))))) = length (x_draws L N rseed)"
    by (simp add: length_draw_n length_x_draws)
  then have y: "map2 (+) (map (\<lambda>v. b0 + 0 * v) (x_draws L N rseed)) (eps_draws L 0 N rseed)
      = replicate n b0"
    unfolding eps_draws_def by (simp only: flat_response length_x_draws n_def)
  have m: "np_mean (replicate n b0) = Fin b0"
    using n by (simp add: np_mean_def sum_list_replicate)
  have "sum_sq_dev (replicate n b0) (Fin b0) = Fin 0"
    by (simp add: sum_sq_dev_Fin sum_list_replicate map_replicate)
  with F(10) y m show ?thesis by simp
qed

text \<open>
  C3, as the code has it. The routine has no guard for a response without variation: when
  \<open>ss_tot = \<Sum>(y\<^sub>i - y_bar)\<^sup>2\<close> is zero, \<open>r_squared = 1 - ss_res / ss_tot\<close> divides by
  zero and is never 0. It is \<open>nan\<close> when \<open>ss_res\<close> is zero as well (\<open>0 / 0\<close>, the value
  in exact arithmetic) and \<open>-inf\<close> when \<open>ss_res\<close> is positive (as a rounding residue of
  the fit makes it); the same holds for the \<open>rsquared\<close> of the fitted model, the value
  the page displays, with its \<open>ssr\<close>.
\<close>

theorem r_squared_zero_variation:
  fixes L :: "'g lib"
  assumes f: "fst (gen_lin_data_locals L b0 b1 sd N rseed g) = Inr f"
    and z: "l_ss_tot f = Fin 0"
  shows "l_r_squared f = nf_sub (Fin 1) (nf_div (Fin (l_ss_res f)) (Fin 0))
       \<and> l_r_squared f = (if l_ss_res f = 0 then NaN else NInf)
       \<and> rsquared (l_model f) = (if ssr (l_model f) = 0 then NaN else NInf)
       \<and> l_r_squared f \<noteq> Fin 0 \<and> rsquared (l_model f) \<noteq> Fin 0
       \<and> (\<forall>res. 0 \<le> res \<longrightarrow>
             nf_sub (Fin 1) (nf_div (Fin res) (Fin 0)) = (if res = 0 then NaN else NInf))"
proof -
  have "l_r_squared f = nf_sub (Fin 1) (nf_div (Fin (l_ss_res f)) (l_ss_tot f))"
    by (rule gen_locals_fields(12) [OF f])
  then have a: "l_r_squared f = nf_sub (Fin 1) (nf_div (Fin (l_ss_res f)) (Fin 0))"
    by (simp only: z)
  note b = zero_variation_not_finite [OF f z]
  have c: "l_r_squared f \<noteq> Fin 0" by (simp add: b(1))
  have d: "rsquared (l_model f) \<noteq> Fin 0" by (simp add: b(2))
  from a b c d one_minus_div_zero show ?thesis by blast
qed

theorem r_squared_zero_variation_witness:
  "fst (gen_lin_data_locals demo_lib 1 0 0 3 0 0)
      = Inr (projr (fst (gen_lin_data_locals demo_lib 1 0 0 3 0 0)))
   \<and> l_ss_tot (projr (fst (gen_lin_data_locals demo_lib 1 0 0 3 0 0))) = Fin 0
   \<and> l_r_squared (projr (fst (gen_lin_data_locals demo_lib 1 0 0 3 0 0)))
       = (if l_ss_res (projr (fst (gen_lin_data_locals demo_lib 1 0 0 3 0 0))) = 0
          then NaN else NInf)
   \<and> l_r_squared (projr (fst (gen_lin_data_locals demo_lib 1 0 0 3 0 0))) \<noteq> Fin 0
   \<and> rsquared (l_model (projr (fst (gen_lin_data_locals demo_lib 1 0 0 3 0 0)))) \<noteq> Fin 0
   \<and> nf_sub (Fin 1) (nf_div (Fin 0) (Fin 0)) = NaN
   \<and> nf_sub (Fin 1) (nf_div (Fin (1 / 10 ^ 32)) (Fin 0)) = NInf"
proof -
  have v: "valid_call 0 3 0" by (simp add: valid_call_def)
  note ret = gen_locals_returns [OF v, of demo_lib 1 0 0]
  note z = flat_ss_tot [OF ret]
  note t = r_squared_zero_variation [OF ret z]
  from t have q: "\<forall>res. 0 \<le> res \<longrightarrow>
             nf_sub (Fin 1) (nf_div (Fin res) (Fin 0)) = (if res = 0 then NaN else NInf)"
    by blast
  from q [rule_format, of 0] have e0: "nf_sub (Fin 1) (nf_div (Fin 0) (Fin 0)) = NaN"
    by simp
  from q [rule_format, of "1 / 10 ^ 32"]
  have e1: "nf_sub (Fin 1) (nf_div (Fin (1 / 10 ^ 32)) (Fin 0)) = NInf"
    by simp
  from ret z t e0 e1 show ?thesis by blast
qed

text \<open>
  The claim as stated fails: a flat population line without disturbance (\<open>b0 = 1\<close>,
  \<open>b1 = 0\<close>, \<open>sd = 0\<close>, three rows) gives a response without variation, and the computed
  \<open>R\<^sup>2\<close> is not 0.
\<close>

theorem r_squared_zero_variation_counterexample:
  "l_ss_tot (projr (fst (gen_lin_data_locals demo_lib 1 0 0 3 0 0))) = Fin 0
   \<and> l_r_squared (projr (fst (gen_lin_data_locals demo_lib 1 0 0 3 0 0))) \<noteq> Fin 0
   \<and> rsquared (l_model (projr (fst (gen_lin_data_locals demo_lib 1 0 0 3 0 0)))) \<noteq> Fin 0"
proof -
  have v: "valid_call 0 3 0" by (simp add: valid_call_def)
  note ret = gen_locals_returns [OF v, of demo_lib 1 0 0]
  note z = flat_ss_tot [OF ret]
  note b = zero_variation_not_finite [OF ret z]
  have "l_r_squared (projr (fst (gen_lin_data_locals demo_lib 1 0 0 3 0 0))) \<noteq> Fin 0"
    by (simp add: b(1))
  moreover have "rsquared (l_model (projr (fst (gen_lin_data_locals demo_lib 1 0 0 3 0 0)))) \<noteq> Fin 0"
    by (simp add: b(2))
  ultimately show ?thesis using z by blast
qed

subsection \<open>Changing the intercept\<close>

lemma shift_response:
  "length eps = length xs \<Longrightarrow>
   map2 (+) (map (\<lambda>v. c + b1 * v) xs) eps
     = map (\<lambda>y. y + (c - b0)) (map2 (+) (map (\<lambda>v. b0 + b1 * v) xs) (eps :: real list))"
  by (induction eps xs rule: list_induct2) simp_all

lemma map2_minus_shift:
  "length zs = length ys \<Longrightarrow>
   map2 (-) (map (\<lambda>y. y + k) ys) (map (\<lambda>y. y + k) zs) = map2 (-) ys (zs :: real list)"
  by (induction zs ys rule: list_induct2) simp_all

lemma np_mean_shift:
  "ys \<noteq> [] \<Longrightarrow> np_mean (map (\<lambda>y. y + k) ys) = Fin (sum_list ys / real (length ys) + k)"
  by (simp add: np_mean_def shift_sums(1) add_divide_distrib)

lemma sum_sq_dev_shift:
  "sum_sq_dev (map (\<lambda>y. y + k) ys) (Fin (m + k)) = sum_sq_dev ys (Fin m)"
  by (simp add: sum_sq_dev_Fin o_def)

lemma r_squared_shift:
  fixes L :: "'g lib"
  assumes f: "fst (gen_lin_data_locals L b0 b1 sd N rseed g) = Inr f"
    and f': "fst (gen_lin_data_locals L c b1 sd N rseed g') = Inr f'"
  shows "l_r_squared f' = l_r_squared f"
proof -
  define xs where "xs = x_draws L N rseed"
  define ys where "ys = map2 (+) (map (\<lambda>v. b0 + b1 * v) xs) (eps_draws L sd N rseed)"
  define k where "k = c - b0"
  note F = gen_locals_fields [OF f, folded xs_def, folded ys_def]
  note G = gen_locals_fields [OF f', folded xs_def]
  have leneps: "length (eps_draws L sd N rseed) = length xs"
    by (simp add: xs_def length_eps_draws length_x_draws)
  have ys': "map2 (+) (map (\<lambda>v. c + b1 * v) xs) (eps_draws L sd N rseed) = map (\<lambda>y. y + k) ys"
    unfolding ys_def k_def by (rule shift_response [OF leneps])
  note G' = G [unfolded ys']
  have len: "length ys = length xs" using F(13,14) by simp
  have ne: "xs \<noteq> []" by (rule F(15))
  then have yne: "ys \<noteq> []" using len by auto
  have hat: "l_y_hat f' = map (\<lambda>v. v + k) (l_y_hat f)"
    using fitted_shift [OF ne len F(2) G'(2)] F(5) G'(5) by simp
  have lenhat: "length (l_y_hat f) = length ys"
    using F(5) len by (simp add: length_np_dot length_design)
  have res: "l_ss_res f' = l_ss_res f"
    using G'(11) F(11) by (simp add: hat map2_minus_shift [OF lenhat])
  have "sum_sq_dev (map (\<lambda>y. y + k) ys) (np_mean (map (\<lambda>y. y + k) ys))
      = sum_sq_dev ys (np_mean ys)"
    by (simp only: np_mean_shift [OF yne] np_mean_Fin [OF yne] sum_sq_dev_shift)
  then have tot: "l_ss_tot f' = l_ss_tot f"
    using G'(10) F(10) by simp
  show ?thesis using G'(12) F(12) by (simp add: res tot)
qed

text \<open>
  C8. With slope, error standard deviation, sample size and seed fixed, the \<open>R\<^sup>2\<close> of the
  routine is the same for every two intercepts: the \<open>r_squared\<close> it computes, and the
  \<open>rsquared\<close> of the fitted model it returns, which the page displays (in exact
  arithmetic; a call that fails, fails for both intercepts).
\<close>

theorem r_squared_intercept_invariant:
  fixes L :: "'g lib"
  shows "map_sum id l_r_squared (fst (gen_lin_data_locals L b0 b1 sd N rseed g))
           = map_sum id l_r_squared (fst (gen_lin_data_locals L c b1 sd N rseed g'))
       \<and> map_sum id (\<lambda>r. rsquared (d_model r)) (fst (gen_lin_data L b0 b1 sd N rseed g))
           = map_sum id (\<lambda>r. rsquared (d_model r)) (fst (gen_lin_data L c b1 sd N rseed g'))"
proof (cases "valid_call sd N rseed")
  case False
  then show ?thesis by (simp add: gen_lin_data_fst gen_locals_invalid)
next
  case True
  define f where "f = projr (fst (gen_lin_data_locals L b0 b1 sd N rseed g))"
  define f' where "f' = projr (fst (gen_lin_data_locals L c b1 sd N rseed g'))"
  have r: "fst (gen_lin_data_locals L b0 b1 sd N rseed g) = Inr f"
    unfolding f_def by (rule gen_locals_returns [OF True])
  have r': "fst (gen_lin_data_locals L c b1 sd N rseed g') = Inr f'"
    unfolding f'_def by (rule gen_locals_returns [OF True])
  have a: "l_r_squared f' = l_r_squared f" by (rule r_squared_shift [OF r r'])
  from locals_sums [OF r] have b: "rsquared (l_model f) = l_r_squared f" by blast
  from locals_sums [OF r'] have b': "rsquared (l_model f') = l_r_squared f'" by blast
  show ?thesis by (simp add: gen_lin_data_fst r r' a b b' return_dict_def)
qed

subsection \<open>No validation in the routine\<close>

lemma gen_lin_data_isl:
  fixes L :: "'g lib"
  shows "isl (fst (gen_lin_data L b0 b1 sd N rseed g)) \<longleftrightarrow> \<not> valid_call sd N rseed"
proof (cases "valid_call sd N rseed")
  case True
  from gen_lin_data_returns [OF True, of L b0 b1 g] True show ?thesis
    by (metis sum.disc(2))
next
  case False
  then show ?thesis by (simp add: gen_lin_data_fst gen_locals_invalid)
qed

lemma s_two_rows:
  fixes L :: "'g lib"
  assumes r: "fst (gen_lin_data L b0 b1 sd 2 rseed g) = Inr r"
  shows "d_s r = NaN \<or> d_s r = PInf"
proof -
  from gen_lin_data_InrD [OF r] obtain f where
    f: "fst (gen_lin_data_locals L b0 b1 sd 2 rseed g) = Inr f" and rf: "r = return_dict f"
    by blast
  have "l_s f = nf_sqrt (nf_div (Fin (sum_sq (l_e f))) (Fin (of_int (2 - 2))))"
    by (rule gen_locals_fields(8) [OF f])
  moreover have "0 \<le> sum_sq (l_e f)" by (rule sum_sq_nonneg)
  ultimately have "l_s f = NaN \<or> l_s f = PInf"
    by (auto simp: inf_of_sign_def)
  then show ?thesis by (simp add: rf return_dict_def)
qed

text \<open>
  C2, as the code has it. The routine does not validate its inputs and has no
  \<open>InvalidSampleSize\<close> or \<open>InvalidVariance\<close>: a call fails exactly where numpy or
  statsmodels raise their \<open>ValueError\<close>, that is for a sample size \<open>\<le> 0\<close>, a negative
  error standard deviation or a seed outside \<open>[0, 2\<^sup>3\<^sup>2)\<close>. A sample size of 1 or 2
  and an error standard deviation of 0 pass; with sample size 2 the returned \<open>s\<close> is
  \<open>nan\<close> or \<open>inf\<close>.
\<close>

theorem validation_by_libraries:
  fixes L :: "'g lib"
  shows "(isl (fst (gen_lin_data L b0 b1 sd N rseed g))
            \<longleftrightarrow> N \<le> 0 \<or> sd < 0 \<or> rseed < 0 \<or> 2 ^ 32 \<le> rseed)
       \<and> (N = 2 \<and> fst (gen_lin_data L b0 b1 sd N rseed g) = Inr r
            \<longrightarrow> d_s r = NaN \<or> d_s r = PInf)"
proof -
  have "isl (fst (gen_lin_data L b0 b1 sd N rseed g))
            \<longleftrightarrow> N \<le> 0 \<or> sd < 0 \<or> rseed < 0 \<or> 2 ^ 32 \<le> rseed"
    unfolding gen_lin_data_isl by (auto simp: valid_call_def)
  moreover have "d_s r = NaN \<or> d_s r = PInf"
    if "N = 2" and "fst (gen_lin_data L b0 b1 sd N rseed g) = Inr r"
    using that s_two_rows [of L b0 b1 sd rseed g r] by simp
  ultimately show ?thesis by blast
qed

theorem validation_by_libraries_witness:
  "\<not> isl (fst (gen_lin_data demo_lib 0 1 1 2 0 0))
   \<and> fst (gen_lin_data demo_lib 0 1 1 2 0 0) = Inr (projr (fst (gen_lin_data demo_lib 0 1 1 2 0 0)))
   \<and> (d_s (projr (fst (gen_lin_data demo_lib 0 1 1 2 0 0))) = NaN
      \<or> d_s (projr (fst (gen_lin_data demo_lib 0 1 1 2 0 0))) = PInf)
   \<and> isl (fst (gen_lin_data demo_lib 0 1 1 0 0 0))
   \<and> isl (fst (gen_lin_data demo_lib 0 1 (- 1) 10 0 0))"
proof -
  have v: "valid_call 1 2 0" by (simp add: valid_call_def)
  note ret = gen_lin_data_returns [OF v, of demo_lib 0 1 0]
  note t = validation_by_libraries [of demo_lib 0 1 1 2 0 0 "projr (fst (gen_lin_data demo_lib 0 1 1 2 0 0))"]
  note t0 = validation_by_libraries [of demo_lib 0 1 1 0 0 0 undefined]
  note t1 = validation_by_libraries [of demo_lib 0 1 "- 1" 10 0 0 undefined]
  have a: "\<not> isl (fst (gen_lin_data demo_lib 0 1 1 2 0 0))" using t by simp
  have b: "d_s (projr (fst (gen_lin_data demo_lib 0 1 1 2 0 0))) = NaN
      \<or> d_s (projr (fst (gen_lin_data demo_lib 0 1 1 2 0 0))) = PInf"
    using t ret by blast
  have c: "isl (fst (gen_lin_data demo_lib 0 1 1 0 0 0))" using t0 by simp
  have d: "isl (fst (gen_lin_data demo_lib 0 1 (- 1) 10 0 0))" using t1 by simp
  from a ret b c d show ?thesis by blast
qed

text \<open>
  The claim as stated fails: a sample size of 2 (less than 3) and an error standard
  deviation of 0 are both accepted, and a dataset is returned.
\<close>

theorem validation_counterexample:
  "\<not> isl (fst (gen_lin_data demo_lib 0 1 1 2 0 0))
   \<and> \<not> isl (fst (gen_lin_data demo_lib 0 1 0 10 0 0))"
  by (simp add: gen_lin_data_isl valid_call_def)

subsection \<open>The normal equations of a returned fit; a singular design matrix\<close>

lemma gen_lin_data_normal_eqs:
  fixes L :: "'g lib"
  assumes v: "valid_call sd N rseed"
  shows "\<exists>r c0 c1. fst (gen_lin_data L b0 b1 sd N rseed g) = Inr r
           \<and> d_x r = design (x_draws L N rseed)
           \<and> params (d_model r) = [c0, c1]
           \<and> real (nat N) * c0 + sum_list (x_draws L N rseed) * c1 = sum_list (d_y r)
           \<and> sum_list (x_draws L N rseed) * c0
               + dot (x_draws L N rseed) (x_draws L N rseed) * c1
               = dot (x_draws L N rseed) (d_y r)"
proof -
  define f where "f = projr (fst (gen_lin_data_locals L b0 b1 sd N rseed g))"
  have r: "fst (gen_lin_data_locals L b0 b1 sd N rseed g) = Inr f"
    unfolding f_def by (rule gen_locals_returns [OF v])
  note F = gen_locals_fields [OF r]
  have len: "length (l_y f) = length (x_draws L N rseed)" using F(4,13,14) by simp
  from OLS_fit_design(1) [OF F(15) len] F(2,4) obtain c0 c1 where
    c: "params (l_model f) = [c0, c1]"
       "real (length (x_draws L N rseed)) * c0 + sum_list (x_draws L N rseed) * c1
          = sum_list (l_y f)"
       "sum_list (x_draws L N rseed) * c0 + dot (x_draws L N rseed) (x_draws L N rseed) * c1
          = dot (x_draws L N rseed) (l_y f)"
    by auto
  have "fst (gen_lin_data L b0 b1 sd N rseed g) = Inr (return_dict f)"
    by (simp add: gen_lin_data_fst r)
  with c F(3,13) show ?thesis by (simp add: return_dict_def)
qed

text \<open>
  Coinciding regressor draws make \<open>X'X\<close> singular, for any number of rows; the generator
  \<open>stuck_lib\<close> draws the regressor value 5 every time.
\<close>

lemma det_coinciding: "\<forall>x\<in>set xs. x = c \<Longrightarrow> det2 (gram (design xs)) = 0"
proof -
  assume c: "\<forall>x\<in>set xs. x = c"
  have "length xs = length xs" by simp
  from const_sums(1,2) [OF c this] show ?thesis
    by (simp add: gram_design det2_def)
qed

lemma x_draws_stuck: "x_draws stuck_lib 3 0 = [5, 5, 5]"
  by (simp add: x_draws_def stuck_lib_def numeral_3_eq_3)

lemma det_stuck: "det2 (gram (design (x_draws stuck_lib 3 0))) = 0"
  by (rule det_coinciding [of _ 5]) (simp add: x_draws_stuck)

text \<open>
  C9, as the code has it. A singular design matrix raises no \<open>ComputationError\<close>: the
  call returns a dataset as for any other draws, and the coefficient estimates are a
  least-squares solution (they satisfy the normal equations \<open>X'X b = X'y\<close>; the fit
  goes through the pseudo-inverse and picks one solution silently).
\<close>

theorem singular_design_returns:
  fixes L :: "'g lib"
  assumes v: "valid_call sd N rseed"
    and s: "det2 (gram (design (x_draws L N rseed))) = 0"
  shows "\<exists>r c0 c1. fst (gen_lin_data L b0 b1 sd N rseed g) = Inr r
           \<and> d_x r = design (x_draws L N rseed)
           \<and> det2 (gram (d_x r)) = 0
           \<and> params (d_model r) = [c0, c1]
           \<and> real (nat N) * c0 + sum_list (x_draws L N rseed) * c1 = sum_list (d_y r)
           \<and> sum_list (x_draws L N rseed) * c0
               + dot (x_draws L N rseed) (x_draws L N rseed) * c1
               = dot (x_draws L N rseed) (d_y r)"
  using gen_lin_data_normal_eqs [OF v, of L b0 b1 g] s by auto

theorem singular_design_returns_witness:
  "valid_call 1 3 0
   \<and> x_draws stuck_lib 3 0 = [5, 5, 5]
   \<and> det2 (gram (design (x_draws stuck_lib 3 0))) = 0
   \<and> (\<exists>r c0 c1. fst (gen_lin_data stuck_lib 0 1 1 3 0 0) = Inr r
           \<and> d_x r = design (x_draws stuck_lib 3 0)
           \<and> det2 (gram (d_x r)) = 0
           \<and> params (d_model r) = [c0, c1]
           \<and> real (nat 3) * c0 + sum_list (x_draws stuck_lib 3 0) * c1 = sum_list (d_y r)
           \<and> sum_list (x_draws stuck_lib 3 0) * c0
               + dot (x_draws stuck_lib 3 0) (x_draws stuck_lib 3 0) * c1
               = dot (x_draws stuck_lib 3 0) (d_y r))"
proof -
  have v: "valid_call 1 3 0" by (simp add: valid_call_def)
  from v x_draws_stuck det_stuck singular_design_returns [OF v det_stuck, of 0 1 0]
  show ?thesis by blast
qed

text \<open>
  The claim as stated fails: when the three regressor draws of a sample coincide
  (\<open>x = [5, 5, 5]\<close>, the case the claim names), the design matrix is singular and the
  call returns a dataset instead of an error.
\<close>

theorem singular_design_counterexample:
  "d_x (projr (fst (gen_lin_data stuck_lib 0 1 1 3 0 0))) = [[1, 5], [1, 5], [1, 5]]
   \<and> det2 (gram (d_x (projr (fst (gen_lin_data stuck_lib 0 1 1 3 0 0))))) = 0
   \<and> \<not> isl (fst (gen_lin_data stuck_lib 0 1 1 3 0 0))"
proof -
  have v: "valid_call 1 3 0" by (simp add: valid_call_def)
  from gen_lin_data_normal_eqs [OF v, of stuck_lib 0 1 0] obtain r where
    r: "fst (gen_lin_data stuck_lib 0 1 1 3 0 0) = Inr r" "d_x r = design (x_draws stuck_lib 3 0)"
    by blast
  have "design (x_draws stuck_lib 3 0) = [[1, 5], [1, 5], [1, 5]]"
    by (simp add: x_draws_stuck design_def)
  with r det_stuck show ?thesis by simp
qed

subsection \<open>The plot data\<close>

lemma sorted_take_argsort: "sorted (take_idx v (np_argsort v))"
  unfolding take_idx_def np_argsort_def by (rule sorted_sort_key)

lemma argsort_permutation:
  "set (np_argsort v) = {0..<length v} \<and> distinct (np_argsort v)"
  by (simp add: np_argsort_def)

lemma x_draws_demo: "x_draws demo_lib 2 0 = [5, - 5]"
  by (simp add: x_draws_def demo_lib_def numeral_2_eq_2)

text \<open>
  C4, as the code has it. The data of the confidence band (\<open>fill_between\<close>) are ordered
  by \<open>x\<close> ascending: the regressor values and both interval bounds are reordered by the
  same permutation of the row indices, the one that sorts \<open>x\<close>. The fitted line
  (\<open>ax.plot\<close>) gets the pairs \<open>(x, y_hat)\<close> in the order of generation, unsorted.
\<close>

theorem band_sorted_line_unsorted:
  "sorted (fst (fill_between_args (plot_ols d)))
   \<and> fill_between_args (plot_ols d)
       = (take_idx (col 1 (d_x d)) (np_argsort (col 1 (d_x d))),
          take_idx (col 0 (d_ci d)) (np_argsort (col 1 (d_x d))),
          take_idx (col 1 (d_ci d)) (np_argsort (col 1 (d_x d))))
   \<and> set (np_argsort (col 1 (d_x d))) = {0..<length (d_x d)}
   \<and> distinct (np_argsort (col 1 (d_x d)))
   \<and> plot_args (plot_ols d) = (col 1 (d_x d), d_y_hat d)"
  using argsort_permutation [of "col 1 (d_x d)"]
  by (simp add: plot_ols_def Let_def sorted_take_argsort col_def)

text \<open>
  The claim as stated fails: for two rows drawn as 5 and -5 the fitted line is handed
  over as \<open>x = [5, -5]\<close>.
\<close>

theorem fitted_line_sorted_counterexample:
  "fst (plot_args (plot_ols (projr (fst (gen_lin_data demo_lib 0 1 1 2 0 0))))) = [5, - 5]
   \<and> \<not> sorted (fst (plot_args (plot_ols (projr (fst (gen_lin_data demo_lib 0 1 1 2 0 0))))))"
proof -
  have v: "valid_call 1 2 0" by (simp add: valid_call_def)
  from gen_lin_data_normal_eqs [OF v, of demo_lib 0 1 0] obtain r where
    r: "fst (gen_lin_data demo_lib 0 1 1 2 0 0) = Inr r" "d_x r = design (x_draws demo_lib 2 0)"
    by blast
  have "fst (plot_args (plot_ols r)) = [5, - 5]"
    by (simp add: plot_ols_def Let_def r(2) col1_design x_draws_demo del: One_nat_def)
  with r(1) show ?thesis by simp
qed

subsection \<open>The resample button\<close>

text \<open>
  C5, as the code has it. On a click of the resample button the new seed \<open>s\<close> is drawn by
  \<open>random.randint(0, 10000)\<close>, whose range includes both ends: \<open>0 \<le> s \<le> 10000\<close>. The
  routine is called again with the same slider values and the new seed. (That the draw is
  uniform is a property of the generator and is not modelled.)
\<close>

theorem resample_seed_range:
  fixes L :: "'g lib"
  assumes "resample_click L b0 b1 sd n g (s, d, g1)"
  shows "0 \<le> s \<and> s \<le> 10000 \<and> (d, g1) = gen_lin_data L b0 b1 sd n s g"
  using assms by (auto elim!: resample_click.cases randint.cases)

theorem resample_seed_range_witness:
  "resample_click demo_lib 0 0 10 500 0
      (42, fst (gen_lin_data demo_lib 0 0 10 500 42 0), snd (gen_lin_data demo_lib 0 0 10 500 42 0))
   \<and> (0::int) \<le> 42 \<and> (42::int) \<le> 10000
   \<and> (fst (gen_lin_data demo_lib 0 0 10 500 42 0), snd (gen_lin_data demo_lib 0 0 10 500 42 0))
       = gen_lin_data demo_lib 0 0 10 500 42 0"
proof -
  have c: "resample_click demo_lib 0 0 10 500 0
      (42, fst (gen_lin_data demo_lib 0 0 10 500 42 0), snd (gen_lin_data demo_lib 0 0 10 500 42 0))"
    by (rule resample_draw) (simp_all add: randint.simps)
  from c resample_seed_range [OF c] show ?thesis by (rule conjI)
qed

text \<open>
  The claim as stated fails: a click can draw the seed 10000, which is not below 10000.
\<close>

theorem resample_seed_range_counterexample:
  "resample_click demo_lib 0 0 10 500 0
      (10000, fst (gen_lin_data demo_lib 0 0 10 500 10000 0),
              snd (gen_lin_data demo_lib 0 0 10 500 10000 0))
   \<and> \<not> (10000::int) < 10000"
proof -
  have "resample_click demo_lib 0 0 10 500 0
      (10000, fst (gen_lin_data demo_lib 0 0 10 500 10000 0),
              snd (gen_lin_data demo_lib 0 0 10 500 10000 0))"
    by (rule resample_draw) (simp_all add: randint.simps)
  then show ?thesis by simp
qed

end
